theory Spec2Isabelle
  imports Complex_Main "HOL-Library.Multiset" "HOL-Library.Log_Nat"
begin

section \<open>Service traffic and lifecycle monitor (traffic_monitor.py)\<close>

text \<open>
  A shallow embedding of \<^verbatim>\<open>TrafficMonitor\<close>. The monitor object, the persistent store,
  the panel adapters and the messenger are one explicit state record that every method takes
  and returns. What the collaborators answer during one call (the clock, whether a panel can
  be reached, whether a remote call succeeds) is an environment record.

  Conventions of the model:
  \<^item> A Python float is the rational number it stands for. The GB figures and the overage
    computed from them are rounded to the nearest double after every operation, as the
    interpreter does (for magnitudes in the normal range of the format). Byte counters and
    the usage percentage are exact: for counters below \<open>2 ^ 49\<close> bytes the conversion to
    a float is exact and the comparisons of the percentage with 70, 100 and 110 come out as
    they do on the exact quotient.
  \<^item> A \<^verbatim>\<open>datetime\<close> is a number of seconds; \<^verbatim>\<open>timedelta.days\<close> is the floor of the
    difference divided by 86400.
  \<^item> A nullable column of a service row is an option. A field of a client dictionary is
    absent, present with the value \<^verbatim>\<open>None\<close>, or a whole number of bytes. The dictionary
    itself is never empty (it carries the identity of the client).
  \<^item> A message is its template and the service it is about, not the rendered text.
  \<^item> Coroutines started together by \<^verbatim>\<open>asyncio.gather\<close> run one after the other, in
    list order.
  \<^item> A call of the store returns. A call of a panel adapter succeeds, fails (it returns
    \<^verbatim>\<open>False\<close>) or raises. Where the monitor disables a client or reads from a panel, a call
    that raises and one that fails are handled alike; on the deletion paths they are not: a
    failure is logged and the path goes on, an exception ends it.
  \<^item> Calls of the optional reporting channel are left out: each sits in its own
    \<^verbatim>\<open>try/except\<close> and touches none of the state below.
\<close>

subsection \<open>Data model\<close>

type_synonym time = int

record service =
  service_id :: nat
  user_id :: nat
  panel_id :: nat
  inbound_id :: nat
  client_uuid :: string
  product_id :: "nat option"
  expires_at :: "time option"
  status :: string
  is_active :: bool
  exhausted_at :: "time option"
  expired_at :: "time option"
  warned_70_percent :: bool
  warned_100_percent :: bool
  warned_one_week :: bool
  warned_expired :: bool
  used_gb :: rat
  total_gb :: rat

text \<open>The client details a panel adapter returns; every counter is in bytes.\<close>

datatype json = Absent | Null | Number int

record client =
  total_traffic :: json
  used_traffic :: json
  totalGB :: json
  up :: json
  down :: json

datatype message =
    Warning_70_percent nat
  | Traffic_exhausted nat
  | Three_days_warning nat int
  | Plan_expired nat
  | Deleted_for_overage nat
  | Deleted_exhausted nat
  | Deleted_expired_plan nat

datatype panel_call =
    Disable_client nat nat string
  | Delete_client nat nat string

record monitor =
  services :: "service list"
  users :: "nat \<Rightarrow> int option"
  message_queue :: "(int \<times> message) list"
  bot_sent :: "(int \<times> message) list"
  pending_updates :: "(nat \<times> rat) list"
  bulk_writes :: "(nat \<times> rat) list list"
  panel_calls :: "panel_call list"

text \<open>How a call of a panel adapter ends.\<close>

datatype remote = Succeeds | Fails | Raises

record env =
  now :: time
  has_panel_manager :: "nat \<Rightarrow> bool"
  login :: "nat \<Rightarrow> remote"
  disable_client :: "nat \<Rightarrow> nat \<Rightarrow> string \<Rightarrow> remote"
  delete_client :: "nat \<Rightarrow> nat \<Rightarrow> string \<Rightarrow> remote"
  bulk_ok :: bool
  batch_clients :: "nat \<Rightarrow> (string \<times> client) list"
  client_details :: "service \<Rightarrow> client option"

text \<open>
  \<^verbatim>\<open>panel_manager.login()\<close> and \<^verbatim>\<open>panel_manager.disable_client(...)\<close> as conditions: the
  branch is taken when the call returns \<^verbatim>\<open>True\<close>.
\<close>

definition login_ok :: "env \<Rightarrow> nat \<Rightarrow> bool" where
  "login_ok e p \<longleftrightarrow> login e p = Succeeds"

definition disable_ok :: "env \<Rightarrow> nat \<Rightarrow> nat \<Rightarrow> string \<Rightarrow> bool" where
  "disable_ok e p i u \<longleftrightarrow> disable_client e p i u = Succeeds"

subsection \<open>Numbers\<close>

definition GB :: rat where
  "GB = 1024 * 1024 * 1024"

definition round_half_even :: "rat \<Rightarrow> int" where
  "round_half_even q =
     (let f = \<lfloor>q\<rfloor>; d = q - of_int f
      in if d < 1 / 2 then f else if 1 / 2 < d then f + 1 else if even f then f else f + 1)"

text \<open>
  The double nearest to a rational number, ties to the even significand. The binade of a
  positive number \<open>q\<close> is the exponent \<open>e\<close> with \<open>2 ^ e \<le> q < 2 ^ (e + 1)\<close>; the number is
  rounded to 53 significant bits there.
\<close>

definition binade :: "rat \<Rightarrow> int" where
  "binade q =
     (if 1 \<le> q then bitlen \<lfloor>q\<rfloor> - 1
      else (let j = bitlen \<lfloor>1 / q\<rfloor> - 1
            in if q * power_int 2 j = 1 then - j else - j - 1))"

definition fl :: "rat \<Rightarrow> rat" where
  "fl q =
     (if q = 0 then 0
      else (let e = binade \<bar>q\<bar>;
                significand = round_half_even (\<bar>q\<bar> * power_int 2 (52 - e))
            in sgn q * of_int significand * power_int 2 (e - 52)))"

text \<open>
  \<^verbatim>\<open>round(x, 4)\<close> on a float: the decimal with four places nearest to \<open>x\<close>, then the double
  nearest to that decimal.
\<close>

definition round4 :: "rat \<Rightarrow> rat" where
  "round4 x = fl (of_int (round_half_even (x * 10000)) / 10000)"

text \<open>\<^verbatim>\<open>round(b / (1024 * 1024 * 1024), 4) if b > 0 else 0\<close>\<close>

definition to_gb :: "rat \<Rightarrow> rat" where
  "to_gb b = (if b > 0 then round4 (fl (b / GB)) else 0)"

text \<open>
  \<^verbatim>\<open>d.get(key, 0)\<close>: 0 when the key is absent, otherwise the value, which may be
  \<^verbatim>\<open>None\<close> (\<open>None\<close> here).
\<close>

definition get_or_0 :: "json \<Rightarrow> int option" where
  "get_or_0 v = (case v of Absent \<Rightarrow> Some 0 | Null \<Rightarrow> None | Number n \<Rightarrow> Some n)"

text \<open>\<^verbatim>\<open>x or y\<close>: \<open>x\<close> when it is a number other than 0, otherwise \<open>y\<close>.\<close>

definition py_or :: "int option \<Rightarrow> int option \<Rightarrow> int option" where
  "py_or x y = (case x of None \<Rightarrow> y | Some n \<Rightarrow> if n \<noteq> 0 then Some n else y)"

text \<open>\<^verbatim>\<open>x or 0\<close>\<close>

definition or_0 :: "int option \<Rightarrow> int" where
  "or_0 x = (case py_or x (Some 0) of None \<Rightarrow> 0 | Some n \<Rightarrow> n)"

text \<open>\<^verbatim>\<open>float(x) if x else 0\<close>\<close>

definition float_or_0 :: "int option \<Rightarrow> rat" where
  "float_or_0 x = (case x of None \<Rightarrow> 0 | Some n \<Rightarrow> if n \<noteq> 0 then of_int n else 0)"

subsection \<open>The store\<close>

text \<open>
  Modelled from the spec: the persistent store (\<^verbatim>\<open>professional_database\<close>) is not part of
  the sources. Its operations follow section 6 of the specification and the names the monitor
  calls them by: an update writes one column of the rows with the given id, a deletion removes
  the row, a read of the warning flags of a missing row finds no flag set.
\<close>

definition update_row :: "nat \<Rightarrow> (service \<Rightarrow> service) \<Rightarrow> monitor \<Rightarrow> monitor" where
  "update_row i f st =
     st\<lparr>services := map (\<lambda>s. if service_id s = i then f s else s) (services st)\<rparr>"

definition get_service :: "monitor \<Rightarrow> nat \<Rightarrow> service option" where
  "get_service st i = find (\<lambda>s. service_id s = i) (services st)"

definition get_service_warning_flags :: "monitor \<Rightarrow> nat \<Rightarrow> (service \<Rightarrow> bool) \<Rightarrow> bool" where
  "get_service_warning_flags st i flag =
     (case get_service st i of None \<Rightarrow> False | Some s \<Rightarrow> flag s)"

definition get_user_by_id :: "monitor \<Rightarrow> nat \<Rightarrow> int option" where
  "get_user_by_id st u = users st u"

definition update_service_status :: "nat \<Rightarrow> string \<Rightarrow> monitor \<Rightarrow> monitor" where
  "update_service_status i v = update_row i (\<lambda>s. s\<lparr>status := v\<rparr>)"

definition update_service_exhaustion_time :: "env \<Rightarrow> nat \<Rightarrow> monitor \<Rightarrow> monitor" where
  "update_service_exhaustion_time e i = update_row i (\<lambda>s. s\<lparr>exhausted_at := Some (now e)\<rparr>)"

definition update_service_expiration_time :: "env \<Rightarrow> nat \<Rightarrow> monitor \<Rightarrow> monitor" where
  "update_service_expiration_time e i = update_row i (\<lambda>s. s\<lparr>expired_at := Some (now e)\<rparr>)"

definition update_service_70_percent_warning :: "nat \<Rightarrow> bool \<Rightarrow> monitor \<Rightarrow> monitor" where
  "update_service_70_percent_warning i w = update_row i (\<lambda>s. s\<lparr>warned_70_percent := w\<rparr>)"

definition update_service_100_percent_warning :: "nat \<Rightarrow> bool \<Rightarrow> monitor \<Rightarrow> monitor" where
  "update_service_100_percent_warning i w = update_row i (\<lambda>s. s\<lparr>warned_100_percent := w\<rparr>)"

definition update_service_warned_one_week :: "nat \<Rightarrow> bool \<Rightarrow> monitor \<Rightarrow> monitor" where
  "update_service_warned_one_week i w = update_row i (\<lambda>s. s\<lparr>warned_one_week := w\<rparr>)"

definition update_service_expired_warning :: "nat \<Rightarrow> bool \<Rightarrow> monitor \<Rightarrow> monitor" where
  "update_service_expired_warning i w = update_row i (\<lambda>s. s\<lparr>warned_expired := w\<rparr>)"

definition delete_service :: "nat \<Rightarrow> monitor \<Rightarrow> monitor" where
  "delete_service i st = st\<lparr>services := filter (\<lambda>s. service_id s \<noteq> i) (services st)\<rparr>"

definition get_all_active_services :: "monitor \<Rightarrow> service list" where
  "get_all_active_services st = filter is_active (services st)"

definition bulk_update_client_status :: "(nat \<times> rat) list \<Rightarrow> monitor \<Rightarrow> monitor" where
  "bulk_update_client_status updates st =
     foldl (\<lambda>acc (i, g). update_row i (\<lambda>s. s\<lparr>used_gb := g\<rparr>) acc) st updates"

text \<open>
  Modelled from the spec: the two queries of the grace-period sweep (section 4.7). A
  disabled service is due when its anchor is at least 24 hours old.
\<close>

definition get_services_for_deletion :: "env \<Rightarrow> monitor \<Rightarrow> service list" where
  "get_services_for_deletion e st =
     filter (\<lambda>s. status s = ''disabled'' \<and>
                 (case exhausted_at s of None \<Rightarrow> False | Some t \<Rightarrow> t + 24 * 3600 \<le> now e))
            (services st)"

definition get_expired_plan_services_for_deletion :: "env \<Rightarrow> monitor \<Rightarrow> service list" where
  "get_expired_plan_services_for_deletion e st =
     filter (\<lambda>s. status s = ''disabled'' \<and> product_id s \<noteq> None \<and>
                 (case expired_at s of None \<Rightarrow> False | Some t \<Rightarrow> t + 24 * 3600 \<le> now e))
            (services st)"

subsection \<open>Outbound messages\<close>

text \<open>\<^verbatim>\<open>_send_message_safe\<close>: put the message on the dispatcher's queue.\<close>

definition send_message_safe :: "int \<Rightarrow> message \<Rightarrow> monitor \<Rightarrow> monitor" where
  "send_message_safe chat m st = st\<lparr>message_queue := message_queue st @ [(chat, m)]\<rparr>"

text \<open>\<^verbatim>\<open>self.bot.send_message\<close>: a call of the messenger itself.\<close>

definition bot_send_message :: "int \<Rightarrow> message \<Rightarrow> monitor \<Rightarrow> monitor" where
  "bot_send_message chat m st = st\<lparr>bot_sent := bot_sent st @ [(chat, m)]\<rparr>"

definition send_70_percent_warning :: "service \<Rightarrow> monitor \<Rightarrow> monitor" where
  "send_70_percent_warning s st =
     (case get_user_by_id st (user_id s) of
        None \<Rightarrow> st
      | Some chat \<Rightarrow>
          if get_service_warning_flags st (service_id s) warned_70_percent then st
          else send_message_safe chat (Warning_70_percent (service_id s)) st)"

definition send_exhaustion_notification :: "service \<Rightarrow> monitor \<Rightarrow> monitor" where
  "send_exhaustion_notification s st =
     (case get_user_by_id st (user_id s) of
        None \<Rightarrow> st
      | Some chat \<Rightarrow>
          if get_service_warning_flags st (service_id s) warned_100_percent then st
          else update_service_100_percent_warning (service_id s) True
                 (send_message_safe chat (Traffic_exhausted (service_id s)) st))"

definition send_three_days_expiration_warning :: "service \<Rightarrow> int \<Rightarrow> monitor \<Rightarrow> monitor" where
  "send_three_days_expiration_warning s remaining_days st =
     (case get_user_by_id st (user_id s) of
        None \<Rightarrow> st
      | Some chat \<Rightarrow> send_message_safe chat (Three_days_warning (service_id s) remaining_days) st)"

definition send_plan_expiration_notification :: "service \<Rightarrow> monitor \<Rightarrow> monitor" where
  "send_plan_expiration_notification s st =
     (case get_user_by_id st (user_id s) of
        None \<Rightarrow> st
      | Some chat \<Rightarrow>
          if get_service_warning_flags st (service_id s) warned_expired then st
          else update_service_expired_warning (service_id s) True
                 (send_message_safe chat (Plan_expired (service_id s)) st))"

subsection \<open>Disabling and deleting\<close>

definition panel_call :: "panel_call \<Rightarrow> monitor \<Rightarrow> monitor" where
  "panel_call c st = st\<lparr>panel_calls := panel_calls st @ [c]\<rparr>"

definition panel_ready :: "env \<Rightarrow> service \<Rightarrow> bool" where
  "panel_ready e s \<longleftrightarrow> has_panel_manager e (panel_id s) \<and> login_ok e (panel_id s)"

definition handle_traffic_exhausted :: "env \<Rightarrow> service \<Rightarrow> monitor \<Rightarrow> monitor" where
  "handle_traffic_exhausted e s st =
     (if status s = ''disabled'' then st
      else if panel_ready e s then
        (let st1 = panel_call (Disable_client (panel_id s) (inbound_id s) (client_uuid s)) st
         in if disable_ok e (panel_id s) (inbound_id s) (client_uuid s) then
              send_exhaustion_notification s
                (update_service_exhaustion_time e (service_id s)
                   (update_service_status (service_id s) ''disabled'' st1))
            else st1)
      else st)"

definition handle_plan_expiration :: "env \<Rightarrow> service \<Rightarrow> monitor \<Rightarrow> monitor" where
  "handle_plan_expiration e s st =
     (if panel_ready e s then
        (let st1 = panel_call (Disable_client (panel_id s) (inbound_id s) (client_uuid s)) st
         in if disable_ok e (panel_id s) (inbound_id s) (client_uuid s) then
              send_plan_expiration_notification s
                (update_service_expiration_time e (service_id s)
                   (update_service_status (service_id s) ''disabled'' st1))
            else st1)
      else st)"

text \<open>
  The three deletion paths take the same steps inside one \<^verbatim>\<open>try\<close>. First the remote
  client is deleted when the panel can be reached. A call that returns \<^verbatim>\<open>False\<close> is only
  logged; when \<^verbatim>\<open>login\<close> or \<^verbatim>\<open>delete_client\<close> raises, the exception leaves through the
  outer \<^verbatim>\<open>except\<close>, which logs it, and nothing more is done. \<open>delete_from_panel\<close> returns
  whether that happened, with the state. Otherwise the row is deleted and the owner
  notified.
\<close>

definition delete_from_panel :: "env \<Rightarrow> service \<Rightarrow> monitor \<Rightarrow> bool \<times> monitor" where
  "delete_from_panel e s st =
     (if has_panel_manager e (panel_id s) then
        (case login e (panel_id s) of
           Raises \<Rightarrow> (True, st)
         | Fails \<Rightarrow> (False, st)
         | Succeeds \<Rightarrow>
             (let st1 = panel_call (Delete_client (panel_id s) (inbound_id s) (client_uuid s)) st
              in (delete_client e (panel_id s) (inbound_id s) (client_uuid s) = Raises, st1)))
      else (False, st))"

definition notify_deleted :: "service \<Rightarrow> message \<Rightarrow> monitor \<Rightarrow> monitor" where
  "notify_deleted s m st =
     (case get_user_by_id st (user_id s) of
        None \<Rightarrow> st
      | Some chat \<Rightarrow> bot_send_message chat m st)"

definition delete_service_for_overage :: "env \<Rightarrow> service \<Rightarrow> monitor \<Rightarrow> monitor" where
  "delete_service_for_overage e s st =
     (let (raised, st1) = delete_from_panel e s st
      in if raised then st1
         else notify_deleted s (Deleted_for_overage (service_id s)) (delete_service (service_id s) st1))"

definition delete_exhausted_service :: "env \<Rightarrow> service \<Rightarrow> monitor \<Rightarrow> monitor" where
  "delete_exhausted_service e s st =
     (let (raised, st1) = delete_from_panel e s st
      in if raised then st1
         else notify_deleted s (Deleted_exhausted (service_id s)) (delete_service (service_id s) st1))"

definition delete_expired_plan_service :: "env \<Rightarrow> service \<Rightarrow> monitor \<Rightarrow> monitor" where
  "delete_expired_plan_service e s st =
     (let (raised, st1) = delete_from_panel e s st
      in if raised then st1
         else notify_deleted s (Deleted_expired_plan (service_id s)) (delete_service (service_id s) st1))"

subsection \<open>Overage during the grace period\<close>

text \<open>
  The overage is computed from the rounded GB figures in floating point: two
  multiplications, a subtraction and a division, each rounded to the nearest double.
\<close>

definition overage_gb :: "rat \<Rightarrow> rat \<Rightarrow> rat" where
  "overage_gb used_gb_v total_gb_v =
     (let total_gb_bytes = (if total_gb_v > 0 then fl (total_gb_v * GB) else 0);
          used_gb_bytes = (if used_gb_v > 0 then fl (used_gb_v * GB) else 0);
          overage_bytes = (if used_gb_bytes > total_gb_bytes
                           then fl (used_gb_bytes - total_gb_bytes) else 0)
      in fl (overage_bytes / GB))"

definition check_disabled_service_overage ::
  "env \<Rightarrow> service \<Rightarrow> rat \<Rightarrow> rat \<Rightarrow> rat \<Rightarrow> monitor \<Rightarrow> monitor" where
  "check_disabled_service_overage e s usage_percentage used_gb_v total_gb_v st =
     (case exhausted_at s of
        None \<Rightarrow> st
      | Some exhausted_time \<Rightarrow>
          if now e - exhausted_time > 24 * 3600 then st
          else if usage_percentage \<ge> 110 \<or> overage_gb used_gb_v total_gb_v \<ge> 1
               then delete_service_for_overage e s st
               else st)"

definition check_expired_service_overage ::
  "env \<Rightarrow> service \<Rightarrow> rat \<Rightarrow> rat \<Rightarrow> rat \<Rightarrow> monitor \<Rightarrow> monitor" where
  "check_expired_service_overage e s usage_percentage used_gb_v total_gb_v st =
     (case expired_at s of
        None \<Rightarrow> st
      | Some expired_time \<Rightarrow>
          if now e - expired_time > 24 * 3600 then st
          else if usage_percentage \<ge> 110 \<or> overage_gb used_gb_v total_gb_v \<ge> 1
               then delete_service_for_overage e s st
               else st)"

subsection \<open>Expiry of plan services\<close>

text \<open>
  The total the expiry check reads from the client:
  \<^verbatim>\<open>client.get('total_traffic', 0) or client.get('totalGB', 0)\<close>. Where the check compares
  a value that is \<^verbatim>\<open>None\<close> with 0, the comparison raises and the inner \<^verbatim>\<open>except\<close> of the
  check logs it: nothing more is done.
\<close>

definition expiry_total :: "client \<Rightarrow> int option" where
  "expiry_total c = py_or (get_or_0 (total_traffic c)) (get_or_0 (totalGB c))"

definition check_plan_expiration :: "env \<Rightarrow> service \<Rightarrow> client \<Rightarrow> monitor \<Rightarrow> monitor" where
  "check_plan_expiration e s c st =
     (if product_id s = None \<or> product_id s = Some 0 then st
      else case expires_at s of
        None \<Rightarrow> st
      | Some exp_date \<Rightarrow>
          (let remaining_days = (exp_date - now e) div 86400;
               st1 = (if remaining_days \<le> 3 \<and> remaining_days > 0 \<and> \<not> warned_one_week s
                      then update_service_warned_one_week (service_id s) True
                             (send_three_days_expiration_warning s remaining_days st)
                      else st)
           in if exp_date \<le> now e then
                (if status s \<noteq> ''disabled'' then handle_plan_expiration e s st1
                 else if expired_at s \<noteq> None then
                   (case expiry_total c of
                      None \<Rightarrow> st1
                    | Some total_b \<Rightarrow>
                        if total_b > 0 then
                          (case get_or_0 (used_traffic c) of
                             None \<Rightarrow> st1
                           | Some used_b \<Rightarrow>
                               check_expired_service_overage e s
                                 (of_int used_b / of_int total_b * 100)
                                 (to_gb (of_int used_b)) (to_gb (of_int total_b)) st1)
                        else st1)
                 else st1)
              else st1))"

subsection \<open>The traffic evaluator\<close>

text \<open>
  The counters the evaluator resolves from the client. A value that is \<^verbatim>\<open>None\<close> is not
  equal to 0, so it has no fallback, and \<^verbatim>\<open>float(x) if x else 0\<close> makes it 0.
\<close>

definition total_traffic_bytes :: "client \<Rightarrow> rat" where
  "total_traffic_bytes c =
     (let t = get_or_0 (total_traffic c);
          t = (if t = Some 0 then get_or_0 (totalGB c) else t)
      in float_or_0 t)"

definition used_traffic_bytes :: "client \<Rightarrow> rat" where
  "used_traffic_bytes c =
     (let u = get_or_0 (used_traffic c);
          u = (if u = Some 0 then
                 (let up_bytes = or_0 (get_or_0 (up c)); down_bytes = or_0 (get_or_0 (down c))
                  in if up_bytes > 0 \<or> down_bytes > 0 then Some (up_bytes + down_bytes) else u)
               else u)
      in float_or_0 u)"

definition usage_percentage :: "client \<Rightarrow> rat" where
  "usage_percentage c =
     (if total_traffic_bytes c > 0 then used_traffic_bytes c / total_traffic_bytes c * 100
      else 0)"

definition stage_update :: "nat \<Rightarrow> rat \<Rightarrow> monitor \<Rightarrow> monitor" where
  "stage_update i g st = st\<lparr>pending_updates := pending_updates st @ [(i, g)]\<rparr>"

definition process_client_traffic :: "env \<Rightarrow> service \<Rightarrow> client \<Rightarrow> monitor \<Rightarrow> monitor" where
  "process_client_traffic e s c st =
     (let st1 = (if product_id s \<noteq> None then check_plan_expiration e s c st else st);
          used_gb_v = to_gb (used_traffic_bytes c);
          total_gb_v = to_gb (total_traffic_bytes c);
          st2 = stage_update (service_id s) used_gb_v st1
      in if total_traffic_bytes c \<le> 0 then st2
         else
           (let st3 = (if usage_percentage c \<ge> 70 \<and> usage_percentage c < 100 then
                         (if \<not> warned_70_percent s \<and> status s \<noteq> ''disabled''
                          then update_service_70_percent_warning (service_id s) True
                                 (send_70_percent_warning s st2)
                          else st2)
                       else st2)
            in if usage_percentage c \<ge> 100 then
                 (if status s \<noteq> ''disabled'' then handle_traffic_exhausted e s st3
                  else check_disabled_service_overage e s (usage_percentage c)
                         used_gb_v total_gb_v st3)
               else st3))"

subsection \<open>The update buffer\<close>

text \<open>
  Every call of \<^verbatim>\<open>bulk_update_client_status\<close> is logged with its argument in
  \<open>bulk_writes\<close>. A call that raises has written nothing: the bulk write is one
  transaction of the store.
\<close>

definition flush_updates :: "env \<Rightarrow> monitor \<Rightarrow> monitor" where
  "flush_updates e st =
     (if pending_updates st = [] then st
      else
        (let updates_to_process = pending_updates st;
             st1 = st\<lparr>pending_updates := [],
                      bulk_writes := bulk_writes st @ [updates_to_process]\<rparr>
         in if bulk_ok e then bulk_update_client_status updates_to_process st1 else st1))"

subsection \<open>One reconciliation pass\<close>

text \<open>
  The dictionary that \<^verbatim>\<open>get_all_clients_from_panel_batch\<close> builds from a panel's inbound
  dump is the field \<open>batch_clients\<close> of the environment, as a list of its items; what
  \<^verbatim>\<open>get_client_details\<close> answers for a service is the field \<open>client_details\<close>
  (\<open>None\<close> also when the call raises). In the batch path the direct answer is compared with
  0 inside a \<^verbatim>\<open>try\<close> whose \<^verbatim>\<open>except\<close> passes: when its \<^verbatim>\<open>used_traffic\<close> is \<^verbatim>\<open>None\<close> the
  comparison raises and the batch data stay.
\<close>

definition check_service_traffic_optimized ::
  "env \<Rightarrow> service \<Rightarrow> (string \<times> client) list \<Rightarrow> monitor \<Rightarrow> monitor" where
  "check_service_traffic_optimized e s all_panel_clients st =
     (if client_uuid s = [] then st
      else
        (let batch = map_of all_panel_clients (client_uuid s);
             details =
               (if (case batch of None \<Rightarrow> True
                    | Some c \<Rightarrow> get_or_0 (used_traffic c) = Some 0) then
                  (let direct_details = client_details e s
                   in case direct_details of
                        None \<Rightarrow> if batch = None then direct_details else batch
                      | Some d \<Rightarrow>
                          (case get_or_0 (used_traffic d) of
                             None \<Rightarrow> batch
                           | Some n \<Rightarrow>
                               if n > 0 then direct_details
                               else if batch = None then direct_details else batch))
                else batch)
         in case details of None \<Rightarrow> st | Some c \<Rightarrow> process_client_traffic e s c st))"

definition check_service_traffic :: "env \<Rightarrow> service \<Rightarrow> monitor \<Rightarrow> monitor" where
  "check_service_traffic e s st =
     (if client_uuid s = [] then st
      else if \<not> has_panel_manager e (panel_id s) then st
      else if \<not> login_ok e (panel_id s) then st
      else case client_details e s of None \<Rightarrow> st | Some c \<Rightarrow> process_client_traffic e s c st)"

definition check_panel_services_parallel ::
  "env \<Rightarrow> nat \<Rightarrow> service list \<Rightarrow> monitor \<Rightarrow> monitor" where
  "check_panel_services_parallel e p panel_services st =
     (if \<not> has_panel_manager e p then st
      else if \<not> login_ok e p then st
      else
        (let all_panel_clients = batch_clients e p
         in if all_panel_clients = []
            then foldl (\<lambda>acc s. check_service_traffic e s acc) st panel_services
            else foldl (\<lambda>acc s. check_service_traffic_optimized e s all_panel_clients acc)
                   st panel_services))"

text \<open>\<^verbatim>\<open>services_by_panel[panel_id].append(service)\<close> on a dictionary that keeps insertion order.\<close>

fun append_to_panel :: "nat \<Rightarrow> service \<Rightarrow> (nat \<times> service list) list \<Rightarrow> (nat \<times> service list) list" where
  "append_to_panel p s [] = [(p, [s])]"
| "append_to_panel p s ((q, ss) # rest) =
     (if q = p then (q, ss @ [s]) # rest else (q, ss) # append_to_panel p s rest)"

definition services_by_panel :: "service list \<Rightarrow> (nat \<times> service list) list" where
  "services_by_panel svcs =
     foldl (\<lambda>acc s. if panel_id s \<noteq> 0 then append_to_panel (panel_id s) s acc else acc) [] svcs"

definition check_panels :: "env \<Rightarrow> (nat \<times> service list) list \<Rightarrow> monitor \<Rightarrow> monitor" where
  "check_panels e groups st =
     foldl (\<lambda>acc (p, panel_services). check_panel_services_parallel e p panel_services acc) st groups"

definition check_all_services :: "env \<Rightarrow> monitor \<Rightarrow> monitor" where
  "check_all_services e st =
     (let svcs = get_all_active_services st;
          st1 = st\<lparr>pending_updates := []\<rparr>
      in if svcs = [] then st1
         else flush_updates e (check_panels e (services_by_panel svcs) st1))"

subsection \<open>The grace-period sweep\<close>

definition check_for_deletion :: "env \<Rightarrow> monitor \<Rightarrow> monitor" where
  "check_for_deletion e st =
     (let st1 = foldl (\<lambda>acc s. delete_exhausted_service e s acc) st
                  (get_services_for_deletion e st)
      in foldl (\<lambda>acc s. delete_expired_plan_service e s acc) st1
           (get_expired_plan_services_for_deletion e st1))"

subsection \<open>The scheduler\<close>

text \<open>
  One pass of the \<^verbatim>\<open>while self.monitoring\<close> loop of \<^verbatim>\<open>start_monitoring\<close> takes, as its
  input, what the collaborators answer during the two passes, how the body ends (it
  completes after \<open>check_duration\<close> seconds, or an exception escapes it before the first
  pass, between the passes or after them), and whether \<^verbatim>\<open>stop_monitoring\<close> is called
  meanwhile. The loop runs over a list of such inputs; \<open>None\<close> says that it is still running
  when the list ends.
\<close>

datatype outcome = Completed rat | Raised_before_check | Raised_after_check | Raised_after_deletion

record iteration =
  check_env :: env
  deletion_env :: env
  ending :: outcome
  stop_called :: bool

record scheduler =
  monitoring :: bool
  sleeps :: "rat list"
  mon :: monitor

definition run_iteration :: "iteration \<Rightarrow> scheduler \<Rightarrow> scheduler" where
  "run_iteration it s =
     (let checked = check_all_services (check_env it) (mon s);
          swept = check_for_deletion (deletion_env it) checked;
          s1 = (case ending it of
                  Completed check_duration \<Rightarrow>
                    (let wait_time = max 0 (180 - check_duration)
                     in s\<lparr>mon := swept,
                          sleeps := sleeps s @ [if wait_time > 0 then wait_time else 1 / 10]\<rparr>)
                | Raised_before_check \<Rightarrow> s\<lparr>sleeps := sleeps s @ [60]\<rparr>
                | Raised_after_check \<Rightarrow> s\<lparr>mon := checked, sleeps := sleeps s @ [60]\<rparr>
                | Raised_after_deletion \<Rightarrow> s\<lparr>mon := swept, sleeps := sleeps s @ [60]\<rparr>)
      in if stop_called it then s1\<lparr>monitoring := False\<rparr> else s1)"

fun monitoring_loop :: "iteration list \<Rightarrow> scheduler \<Rightarrow> scheduler option" where
  "monitoring_loop [] s = (if monitoring s then None else Some s)"
| "monitoring_loop (it # its) s =
     (if monitoring s then monitoring_loop its (run_iteration it s) else Some s)"

definition start_monitoring :: "iteration list \<Rightarrow> monitor \<Rightarrow> scheduler option" where
  "start_monitoring its m = monitoring_loop its \<lparr>monitoring = True, sleeps = [], mon = m\<rparr>"

subsection \<open>The notification dispatcher\<close>

text \<open>
  The worker \<^verbatim>\<open>_process_message_queue\<close> takes the items of the queue in the order
  \<^verbatim>\<open>asyncio.Queue\<close> hands them out, which is the order they were put. The event loop's
  clock is part of the worker's state. For each item the input says how long the worker
  waited for it, by how much \<^verbatim>\<open>asyncio.sleep\<close> overshot, how long the send took and
  whether it raised.
\<close>

definition min_message_interval :: rat where
  "min_message_interval = 1"

record attempt =
  recipient :: int
  text_sent :: message
  started :: rat
  finished :: rat
  delivered :: bool

record worker =
  clock :: rat
  last_message_time :: "int \<Rightarrow> rat option"
  attempts :: "attempt list"

record delivery =
  item :: "int \<times> message"
  waited :: rat
  overslept :: rat
  send_duration :: rat
  send_ok :: bool

definition process_queue_item :: "delivery \<Rightarrow> worker \<Rightarrow> worker" where
  "process_queue_item d w =
     (let chat_id = fst (item d);
          now_t = clock w + waited d;
          last_time = (case last_message_time w chat_id of None \<Rightarrow> 0 | Some t \<Rightarrow> t);
          time_since_last = now_t - last_time;
          start = (if time_since_last < min_message_interval
                   then now_t + (min_message_interval - time_since_last) + overslept d
                   else now_t);
          fin = start + send_duration d
      in w\<lparr>clock := fin,
           last_message_time :=
             (if send_ok d then (last_message_time w)(chat_id \<mapsto> fin) else last_message_time w),
           attempts := attempts w @
             [\<lparr>recipient = chat_id, text_sent = snd (item d), started = start,
               finished = fin, delivered = send_ok d\<rparr>]\<rparr>)"

definition process_message_queue :: "delivery list \<Rightarrow> worker \<Rightarrow> worker" where
  "process_message_queue ds w = foldl (\<lambda>acc d. process_queue_item d acc) w ds"

subsection \<open>Notions used to state the properties\<close>

text \<open>
  The four idempotency flags of a service row, and the notification that each one gates.
  The queue of the model only grows, so the number of queued notifications of a kind about
  a service is the number ever queued.
\<close>

datatype warning_kind = W70 | W100 | W3d | Wexp

fun flag_of :: "warning_kind \<Rightarrow> service \<Rightarrow> bool" where
  "flag_of W70 = warned_70_percent"
| "flag_of W100 = warned_100_percent"
| "flag_of W3d = warned_one_week"
| "flag_of Wexp = warned_expired"

fun gated_by :: "warning_kind \<Rightarrow> nat \<Rightarrow> message \<Rightarrow> bool" where
  "gated_by W70 i m = (m = Warning_70_percent i)"
| "gated_by W100 i m = (m = Traffic_exhausted i)"
| "gated_by W3d i m = (case m of Three_days_warning j d \<Rightarrow> j = i | _ \<Rightarrow> False)"
| "gated_by Wexp i m = (m = Plan_expired i)"

definition sends_gated :: "warning_kind \<Rightarrow> nat \<Rightarrow> monitor \<Rightarrow> nat" where
  "sends_gated k i st = length (filter (\<lambda>(chat, m). gated_by k i m) (message_queue st))"

text \<open>
  All rows with a given id carry the flag; and the gate a flag is meant to be: at most one
  notification of its kind about the service has been queued, and if one has, the flag is set.
\<close>

definition all_flagged :: "warning_kind \<Rightarrow> nat \<Rightarrow> monitor \<Rightarrow> bool" where
  "all_flagged k i st \<longleftrightarrow> (\<forall>r\<in>set (services st). service_id r = i \<longrightarrow> flag_of k r)"

definition flag_gate :: "warning_kind \<Rightarrow> nat \<Rightarrow> monitor \<Rightarrow> bool" where
  "flag_gate k i st \<longleftrightarrow>
     sends_gated k i st \<le> 1 \<and> (sends_gated k i st = 1 \<longrightarrow> all_flagged k i st)"

text \<open>
  What a gate allows between an earlier and a later state: at most one notification of the
  kind about the service has been queued in between; none if the flag was already set, and
  then it is still set; and if one has been queued the flag is set afterwards.
\<close>

definition gated_step :: "warning_kind \<Rightarrow> nat \<Rightarrow> monitor \<Rightarrow> monitor \<Rightarrow> bool" where
  "gated_step k i st st' \<longleftrightarrow>
     sends_gated k i st \<le> sends_gated k i st' \<and>
     sends_gated k i st' \<le> sends_gated k i st + 1 \<and>
     (all_flagged k i st \<longrightarrow> all_flagged k i st' \<and> sends_gated k i st' = sends_gated k i st) \<and>
     (sends_gated k i st < sends_gated k i st' \<longrightarrow> all_flagged k i st')"

text \<open>No row of the later store has lost a flag that a row with its id had before.\<close>

definition flags_kept :: "monitor \<Rightarrow> monitor \<Rightarrow> bool" where
  "flags_kept st st' \<longleftrightarrow>
     (\<forall>r'\<in>set (services st'). \<exists>r\<in>set (services st).
        service_id r = service_id r' \<and>
        (warned_70_percent r \<longrightarrow> warned_70_percent r') \<and>
        (warned_100_percent r \<longrightarrow> warned_100_percent r') \<and>
        (warned_one_week r \<longrightarrow> warned_one_week r') \<and>
        (warned_expired r \<longrightarrow> warned_expired r'))"

definition row_ids :: "monitor \<Rightarrow> nat set" where
  "row_ids st = service_id ` set (services st)"

text \<open>
  A step that concerns the service \<open>i\<close> leaves the rows of every other service as they
  are, and keeps the ids of the rows distinct.
\<close>

definition others_untouched :: "nat \<Rightarrow> monitor \<Rightarrow> monitor \<Rightarrow> bool" where
  "others_untouched i st st' \<longleftrightarrow>
     (\<forall>r\<in>set (services st). service_id r \<noteq> i \<longrightarrow> r \<in> set (services st')) \<and>
     (distinct (map service_id (services st)) \<longrightarrow> distinct (map service_id (services st')))"

text \<open>No row of the later store has a usage counter other than a row with its id had before.\<close>

definition counters_kept :: "monitor \<Rightarrow> monitor \<Rightarrow> bool" where
  "counters_kept st st' \<longleftrightarrow>
     (\<forall>r'\<in>set (services st'). \<exists>r\<in>set (services st).
        service_id r = service_id r' \<and> used_gb r' = used_gb r)"

text \<open>
  A deletion path is cut short: the panel is configured and \<^verbatim>\<open>login\<close> raises, or
  \<^verbatim>\<open>login\<close> succeeds and \<^verbatim>\<open>delete_client\<close> raises.
\<close>

definition delete_aborts :: "env \<Rightarrow> service \<Rightarrow> bool" where
  "delete_aborts e s \<longleftrightarrow>
     has_panel_manager e (panel_id s) \<and>
     (login e (panel_id s) = Raises \<or>
      login e (panel_id s) = Succeeds \<and>
      delete_client e (panel_id s) (inbound_id s) (client_uuid s) = Raises)"

text \<open>
  The worker of the dispatcher as \<^verbatim>\<open>__init__\<close> leaves it (no send recorded yet), started
  when the clock of the event loop shows \<open>t0\<close>; and the spacing of its sends: after a send
  to a recipient that was delivered, every later send to the same recipient starts at least
  the minimum interval after the earlier one finished.
\<close>

definition new_worker :: "rat \<Rightarrow> worker" where
  "new_worker t0 = \<lparr>clock = t0, last_message_time = (\<lambda>chat. None), attempts = []\<rparr>"

fun spaced :: "attempt list \<Rightarrow> bool" where
  "spaced [] = True"
| "spaced (a # later) =
     ((delivered a \<longrightarrow>
         (\<forall>b\<in>set later. recipient b = recipient a \<longrightarrow>
            finished a + min_message_interval \<le> started b)) \<and>
      spaced later)"

text \<open>The scheduler's loop body over a list of passes, whatever the monitoring flag says.\<close>

definition run_iterations :: "iteration list \<Rightarrow> scheduler \<Rightarrow> scheduler" where
  "run_iterations its s = foldl (\<lambda>acc it. run_iteration it acc) s its"

subsection \<open>Example data\<close>

text \<open>
  A volume service of 10 GB owned by user 7 (chat 700) on panel 2, a store that holds it,
  and an environment in which every panel call succeeds.
\<close>

definition example_service :: service where
  "example_service =
     \<lparr>service_id = 1, user_id = 7, panel_id = 2, inbound_id = 3, client_uuid = ''u1'',
      product_id = None, expires_at = None, status = ''active'', is_active = True,
      exhausted_at = None, expired_at = None, warned_70_percent = False,
      warned_100_percent = False, warned_one_week = False, warned_expired = False,
      used_gb = 0, total_gb = 10\<rparr>"

definition example_store :: "service list \<Rightarrow> monitor" where
  "example_store rows =
     \<lparr>services = rows, users = (\<lambda>u. if u = 7 then Some 700 else None), message_queue = [],
      bot_sent = [], pending_updates = [], bulk_writes = [], panel_calls = []\<rparr>"

definition example_env :: env where
  "example_env =
     \<lparr>now = 1000000, has_panel_manager = (\<lambda>p. True), login = (\<lambda>p. Succeeds),
      disable_client = (\<lambda>p i u. Succeeds), delete_client = (\<lambda>p i u. Succeeds),
      bulk_ok = True,
      batch_clients = (\<lambda>p. []), client_details = (\<lambda>s. None)\<rparr>"

definition example_client :: "int \<Rightarrow> int \<Rightarrow> client" where
  "example_client total_b used_b =
     \<lparr>total_traffic = Number total_b, used_traffic = Number used_b, totalGB = Absent,
      up = Absent, down = Absent\<rparr>"

text \<open>
  A client whose \<^verbatim>\<open>total_traffic\<close> is present with the value \<^verbatim>\<open>None\<close>, while
  \<^verbatim>\<open>totalGB\<close> says 10 GiB and 12 GiB are used; and the service as a plan that expired two
  hours ago and was disabled for it one hour ago.
\<close>

definition null_total_client :: client where
  "null_total_client =
     \<lparr>total_traffic = Null, used_traffic = Number (12 * 1073741824),
      totalGB = Number (10 * 1073741824), up = Absent, down = Absent\<rparr>"

definition lapsed_plan :: service where
  "lapsed_plan =
     example_service\<lparr>product_id := Some 5, expires_at := Some (1000000 - 7200),
       status := ''disabled'', expired_at := Some (1000000 - 3600)\<rparr>"

text \<open>The service disabled for exhaustion one hour ago.\<close>

definition exhausted_service :: service where
  "exhausted_service =
     example_service\<lparr>status := ''disabled'', exhausted_at := Some (1000000 - 3600)\<rparr>"

text \<open>The same service as a plan that expires in two days and a bit.\<close>

definition example_plan :: service where
  "example_plan = example_service\<lparr>product_id := Some 5, expires_at := Some (1000000 + 2 * 86400 + 100)\<rparr>"

definition example_iteration :: "outcome \<Rightarrow> iteration" where
  "example_iteration how =
     \<lparr>check_env = example_env, deletion_env = example_env, ending = how, stop_called = False\<rparr>"

definition example_scheduler :: scheduler where
  "example_scheduler = \<lparr>monitoring = True, sleeps = [], mon = example_store []\<rparr>"

text \<open>
  An environment in which the panels hold no batch data and answer every request for the
  details of a client with the given counters, and a scheduler pass that completes in 30
  seconds in that environment.
\<close>

definition example_panel_env :: "client \<Rightarrow> env" where
  "example_panel_env c = example_env\<lparr>client_details := (\<lambda>s. Some c)\<rparr>"

definition example_pass :: "client \<Rightarrow> iteration" where
  "example_pass c =
     \<lparr>check_env = example_panel_env c, deletion_env = example_panel_env c,
      ending = Completed 30, stop_called = False\<rparr>"

definition example_running :: "service list \<Rightarrow> scheduler" where
  "example_running rows = \<lparr>monitoring = True, sleeps = [], mon = example_store rows\<rparr>"

text \<open>
  An item of the dispatcher's queue for chat 700 that is already waiting when the worker
  turns to it, with a send that takes a twentieth of a second.
\<close>

definition example_delivery :: "bool \<Rightarrow> nat \<Rightarrow> delivery" where
  "example_delivery ok k =
     \<lparr>item = (700, Warning_70_percent k), waited = 0, overslept = 0, send_duration = 1 / 20,
      send_ok = ok\<rparr>"

section \<open>Properties\<close>

lemmas store_defs = update_row_def get_service_def get_service_warning_flags_def get_user_by_id_def
  update_service_status_def update_service_exhaustion_time_def update_service_expiration_time_def
  update_service_70_percent_warning_def update_service_100_percent_warning_def
  update_service_warned_one_week_def update_service_expired_warning_def delete_service_def

lemmas send_defs = send_message_safe_def bot_send_message_def send_70_percent_warning_def
  send_exhaustion_notification_def send_three_days_expiration_warning_def
  send_plan_expiration_notification_def

lemmas example_defs = example_service_def example_store_def example_env_def example_client_def
  example_plan_def example_iteration_def example_scheduler_def example_panel_env_def
  example_pass_def example_running_def login_ok_def disable_ok_def

subsection \<open>Rounding to the nearest double\<close>

text \<open>
  The binade of a positive number is the one exponent that brackets it, so a double can be
  computed from any bracket found by hand; rounding keeps the sign and moves a number by at
  most one part in \<open>2 ^ 53\<close>.
\<close>

lemma floor_numeral_div: "\<lfloor>(numeral a :: rat) / numeral b\<rfloor> = numeral a div numeral b"
  using floor_divide_of_int_eq [of "numeral a" "numeral b", where ?'a = rat] by simp

lemma round_half_even_error: "\<bar>of_int (round_half_even x) - x\<bar> \<le> 1 / 2"
proof -
  have "of_int \<lfloor>x\<rfloor> \<le> x" "x < of_int \<lfloor>x\<rfloor> + 1" by linarith+
  then show ?thesis by (auto simp: round_half_even_def Let_def)
qed

lemma round_half_even_of_int [simp]: "round_half_even (of_int n) = n"
  by (simp add: round_half_even_def)

lemma round_half_even_nonneg: "0 \<le> x \<Longrightarrow> 0 \<le> round_half_even x"
  by (auto simp: round_half_even_def Let_def)

lemma binade_bounds:
  assumes "0 < q"
  shows "power_int 2 (binade q) \<le> q \<and> q < power_int 2 (binade q + 1)"
proof (cases "1 \<le> q")
  case True
  then have pos: "0 < \<lfloor>q\<rfloor>" by linarith
  define b where "b = bitlen \<lfloor>q\<rfloor>"
  have b1: "1 \<le> b" using pos bitlen_ge_iff_power [of 1 "\<lfloor>q\<rfloor>"] by (simp add: b_def)
  from bitlen_bounds [OF pos] have lo: "2 ^ nat (b - 1) \<le> \<lfloor>q\<rfloor>" and hi: "\<lfloor>q\<rfloor> < 2 ^ nat b"
    by (simp_all add: b_def)
  have "(2::rat) ^ nat (b - 1) = of_int (2 ^ nat (b - 1))" by simp
  also have "\<dots> \<le> of_int \<lfloor>q\<rfloor>" using lo by (simp only: of_int_le_iff)
  also have "\<dots> \<le> q" by simp
  finally have 1: "power_int 2 (b - 1) \<le> q" using b1 by (simp add: power_int_def)
  have "\<lfloor>q\<rfloor> + 1 \<le> 2 ^ nat b" using hi by simp
  then have "of_int (\<lfloor>q\<rfloor> + 1) \<le> (of_int (2 ^ nat b) :: rat)" by (simp only: of_int_le_iff)
  moreover have "q < of_int (\<lfloor>q\<rfloor> + 1)" by linarith
  ultimately have 2: "q < power_int 2 b" using b1 by (simp add: power_int_def)
  from True 1 2 show ?thesis by (simp add: binade_def b_def)
next
  case False
  then have q1: "q < 1" by simp
  define r where "r = 1 / q"
  have r1: "1 < r" using assms q1 by (simp add: r_def)
  then have pos: "0 < \<lfloor>r\<rfloor>" by linarith
  define j where "j = bitlen \<lfloor>r\<rfloor> - 1"
  have j0: "0 \<le> j" using pos bitlen_ge_iff_power [of 1 "\<lfloor>r\<rfloor>"] by (simp add: j_def)
  from bitlen_bounds [OF pos] have lo: "2 ^ nat j \<le> \<lfloor>r\<rfloor>" and hi: "\<lfloor>r\<rfloor> < 2 ^ nat (j + 1)"
    by (simp_all add: j_def)
  have "(2::rat) ^ nat j = of_int (2 ^ nat j)" by simp
  also have "\<dots> \<le> of_int \<lfloor>r\<rfloor>" using lo by (simp only: of_int_le_iff)
  also have "\<dots> \<le> r" by simp
  finally have 1: "2 ^ nat j \<le> r" .
  have "\<lfloor>r\<rfloor> + 1 \<le> 2 ^ nat (j + 1)" using hi by simp
  then have "of_int (\<lfloor>r\<rfloor> + 1) \<le> (of_int (2 ^ nat (j + 1)) :: rat)" by (simp only: of_int_le_iff)
  moreover have "r < of_int (\<lfloor>r\<rfloor> + 1)" by linarith
  ultimately have 2: "r < 2 ^ nat (j + 1)" by simp
  have qle: "q \<le> 1 / 2 ^ nat j" using 1 assms by (simp add: r_def field_simps)
  have qgt: "1 / 2 ^ nat (j + 1) < q" using 2 assms by (simp add: r_def field_simps)
  have pj: "power_int (2::rat) j = 2 ^ nat j" using j0 by (simp add: power_int_def)
  have pmj: "power_int (2::rat) (- j) = 1 / 2 ^ nat j" using j0
    by (simp add: power_int_minus_divide pj)
  have pmj1: "power_int (2::rat) (- j - 1) = 1 / 2 ^ nat (j + 1)"
  proof -
    have "- j - 1 = - (j + 1)" by simp
    moreover have "power_int (2::rat) (j + 1) = 2 ^ nat (j + 1)" using j0 by (simp add: power_int_def)
    ultimately show ?thesis by (simp only: power_int_minus_divide)
  qed
  have "power_int (2::rat) (- j + 1) = power_int 2 (- j) * power_int 2 1"
    by (rule power_int_add) simp
  then have pmj2: "power_int (2::rat) (1 - j) = 2 * (1 / 2 ^ nat j)"
    by (simp only: pmj) simp
  show ?thesis
  proof (cases "q * power_int 2 j = 1")
    case True
    then have qeq: "q = 1 / 2 ^ nat j" by (simp add: pj field_simps)
    have "binade q = - j"
      using q1 True unfolding j_def r_def by (simp add: binade_def Let_def)
    moreover have "1 / 2 ^ nat j < 2 / (2::rat) ^ nat j"
      by (rule divide_strict_right_mono) simp_all
    ultimately show ?thesis by (simp add: pmj pmj2 qeq)
  next
    case F: False
    then have "q \<noteq> 1 / 2 ^ nat j" by (auto simp: pj)
    with qle have lt: "q < 1 / 2 ^ nat j" by simp
    have "binade q = - j - 1"
      using q1 F unfolding j_def r_def by (simp add: binade_def Let_def)
    then show ?thesis using lt qgt by (simp add: pmj pmj1)
  qed
qed

lemma binade_unique:
  assumes "power_int 2 e \<le> q" "q < power_int 2 (e + 1)"
  shows "binade q = e"
proof -
  have pos: "0 < q" by (rule less_le_trans [OF _ assms(1)]) simp
  from binade_bounds [OF pos] have b: "power_int 2 (binade q) \<le> q" "q < power_int 2 (binade q + 1)"
    by simp_all
  have less: "m < n" if "power_int (2::rat) m < power_int 2 n" for m n :: int
  proof (rule ccontr)
    assume "\<not> m < n"
    then have "power_int (2::rat) n \<le> power_int 2 m" by (intro power_int_increasing) simp_all
    with that show False by simp
  qed
  have "power_int (2::rat) e < power_int 2 (binade q + 1)" using assms(1) b(2) by simp
  then have 1: "e < binade q + 1" by (rule less)
  have "power_int (2::rat) (binade q) < power_int 2 (e + 1)" using assms(2) b(1) by simp
  then have 2: "binade q < e + 1" by (rule less)
  from 1 2 show ?thesis by simp
qed

lemma fl_eval:
  assumes "power_int 2 e \<le> \<bar>q\<bar>" "\<bar>q\<bar> < power_int 2 (e + 1)"
  shows "fl q = sgn q * of_int (round_half_even (\<bar>q\<bar> * power_int 2 (52 - e))) * power_int 2 (e - 52)"
proof -
  have "0 < \<bar>q\<bar>" by (rule less_le_trans [OF _ assms(1)]) simp
  then have "q \<noteq> 0" by simp
  then show ?thesis by (simp add: fl_def Let_def binade_unique [OF assms])
qed

lemma fl_nonneg: "0 \<le> q \<Longrightarrow> 0 \<le> fl q"
  by (simp add: fl_def Let_def round_half_even_nonneg sgn_if)

lemma fl_error: "\<bar>fl q - q\<bar> \<le> \<bar>q\<bar> / 2 ^ 53"
proof (cases "q = 0")
  case True then show ?thesis by (simp add: fl_def)
next
  case False
  define a where "a = \<bar>q\<bar>"
  define e where "e = binade a"
  define x where "x = a * power_int 2 (52 - e)"
  have pos: "0 < a" using False by (simp add: a_def)
  from binade_bounds [OF pos] have lo: "power_int 2 e \<le> a" by (simp add: e_def)
  have p: "power_int (2::rat) (52 - e) * power_int 2 (e - 52) = 1"
    by (simp flip: power_int_add)
  have flq: "fl q = sgn q * (of_int (round_half_even x) * power_int 2 (e - 52))"
    using False by (simp add: fl_def Let_def a_def e_def x_def)
  have q: "q = sgn q * (x * power_int 2 (e - 52))"
  proof -
    have "x * power_int 2 (e - 52) = a * (power_int 2 (52 - e) * power_int 2 (e - 52))"
      by (simp add: x_def)
    then show ?thesis by (simp add: p a_def sgn_if)
  qed
  have "fl q - q = sgn q * ((of_int (round_half_even x) - x) * power_int 2 (e - 52))"
    by (subst q, subst flq) (simp add: algebra_simps)
  then have "\<bar>fl q - q\<bar> = \<bar>of_int (round_half_even x) - x\<bar> * power_int 2 (e - 52)"
    using False by (simp add: abs_mult abs_sgn_eq)
  also have "\<dots> \<le> 1 / 2 * power_int 2 (e - 52)"
    by (intro mult_right_mono round_half_even_error) simp
  also have "\<dots> = power_int 2 e / 2 ^ 53"
    by (simp add: power_int_diff)
  also have "\<dots> \<le> a / 2 ^ 53" using lo by (simp add: divide_right_mono)
  finally show ?thesis by (simp add: a_def)
qed

text \<open>
  A number with a significand of at most 53 bits is its own double; so a whole number of
  GiB below \<open>2 ^ 20\<close> is its own GB figure.
\<close>

lemma fl_dyadic:
  assumes "0 < k" "k < 2 ^ 53"
  shows "fl (of_nat k * power_int 2 j) = of_nat k * power_int 2 j"
proof -
  define e where "e = bitlen (int k) - 1"
  define q :: rat where "q = of_nat k * power_int 2 j"
  have pos: "0 < int k" using assms(1) by simp
  have e0: "0 \<le> e" using pos bitlen_ge_iff_power [of 1 "int k"] by (simp add: e_def)
  from bitlen_bounds [OF pos] have lo: "2 ^ nat e \<le> int k" and hi: "int k < 2 ^ nat (e + 1)"
    by (simp_all add: e_def)
  have e52: "e \<le> 52"
  proof (rule ccontr)
    assume "\<not> e \<le> 52"
    then have "(2::int) ^ 53 \<le> 2 ^ nat e" by (intro power_increasing) simp_all
    from this lo have "2 ^ 53 \<le> int k" by (rule order_trans)
    with assms(2) show False by simp
  qed
  have qpos: "0 < q" using assms(1) by (simp add: q_def)
  have "(2::rat) ^ nat e = of_int (2 ^ nat e)" by simp
  also have "\<dots> \<le> of_int (int k)" using lo by (simp only: of_int_le_iff)
  finally have "power_int 2 e \<le> (of_nat k :: rat)" using e0 by (simp add: power_int_def)
  then have "power_int 2 e * power_int 2 j \<le> (of_nat k :: rat) * power_int 2 j"
    by (rule mult_right_mono) simp
  then have 1: "power_int 2 (e + j) \<le> \<bar>q\<bar>"
    using qpos by (simp add: q_def power_int_add)
  have "of_int (int k) < (of_int (2 ^ nat (e + 1)) :: rat)" using hi by (simp only: of_int_less_iff)
  then have "(of_nat k :: rat) < power_int 2 (e + 1)" using e0 by (simp add: power_int_def)
  then have "(of_nat k :: rat) * power_int 2 j < power_int 2 (e + 1) * power_int 2 j"
    by (rule mult_strict_right_mono) simp
  then have 2: "\<bar>q\<bar> < power_int 2 (e + j + 1)"
    using qpos by (simp add: q_def power_int_add add.commute add.left_commute)
  have p: "power_int (2::rat) (52 - e) = of_int (2 ^ nat (52 - e))"
    using e52 by (simp add: power_int_def)
  have "power_int (2::rat) j * power_int 2 (52 - (e + j)) = power_int 2 (52 - e)"
    by (simp flip: power_int_add)
  then have m: "\<bar>q\<bar> * power_int 2 (52 - (e + j)) = of_int (int k * 2 ^ nat (52 - e))"
    using qpos by (simp add: q_def p mult.assoc)
  have c: "power_int (2::rat) (52 - e) * power_int 2 (e + j - 52) = power_int 2 j"
    by (simp flip: power_int_add)
  have "fl q = of_nat k * (power_int 2 (52 - e) * power_int 2 (e + j - 52))"
    unfolding fl_eval [OF 1 2] m round_half_even_of_int using qpos by (simp add: p)
  then show ?thesis by (simp add: c q_def)
qed

lemma fl_of_nat_small: "0 < n \<Longrightarrow> n < 2 ^ 53 \<Longrightarrow> fl (of_nat n) = of_nat n"
  using fl_dyadic [of n 0] by simp

lemma to_gb_GB:
  assumes "0 < n" "n < 2 ^ 20"
  shows "to_gb (of_nat n * GB) = of_nat n"
proof -
  have "n < 2 ^ 53" using assms(2) by (rule less_trans) simp
  then have f: "fl (of_nat n) = of_nat n" using assms(1) by (rule fl_of_nat_small [rotated])
  have "round_half_even (of_nat n * 10000) = int n * 10000"
    using round_half_even_of_int [of "int n * 10000"] by simp
  then show ?thesis using assms(1) by (simp add: to_gb_def round4_def GB_def f)
qed

text \<open>
  The overage is never negative. For figures of up to \<open>2 ^ 20\<close> GB it differs from the
  exact difference of the two figures, cut off at 0, by at most \<open>2 ^ - 30\<close> GB, one byte.
\<close>

lemma overage_gb_nonneg: "0 \<le> overage_gb u t"
  by (simp add: overage_gb_def Let_def fl_nonneg GB_def)

lemma overage_gb_error:
  assumes "u \<le> 1048576" "t \<le> 1048576"
  shows "\<bar>overage_gb u t - max 0 (max 0 u - max 0 t)\<bar> \<le> 1 / 2 ^ 30"
proof -
  define T where "T = (if t > 0 then fl (t * GB) else 0)"
  define U where "U = (if u > 0 then fl (u * GB) else 0)"
  define ob where "ob = (if U > T then fl (U - T) else 0)"
  define x where "x = ob / 1073741824"
  define t' where "t' = max 0 t"
  define u' where "u' = max 0 u"
  have r: "overage_gb u t = fl x"
    by (simp add: overage_gb_def Let_def T_def U_def ob_def x_def GB_def)
  have f1: "\<bar>T - t' * 1073741824\<bar> \<le> t' * 1073741824 / 9007199254740992"
    using fl_error [of "t * GB"] by (auto simp: T_def t'_def GB_def max_def)
  have f2: "\<bar>U - u' * 1073741824\<bar> \<le> u' * 1073741824 / 9007199254740992"
    using fl_error [of "u * GB"] by (auto simp: U_def u'_def GB_def max_def)
  have f3: "\<bar>ob - max 0 (U - T)\<bar> \<le> max 0 (U - T) / 9007199254740992"
    using fl_error [of "U - T"] by (auto simp: ob_def max_def)
  have ob0: "0 \<le> ob" by (simp add: ob_def fl_nonneg)
  have f4: "\<bar>fl x - x\<bar> \<le> x / 9007199254740992"
    using fl_error [of x] ob0 by (simp add: x_def)
  have b: "0 \<le> t'" "t' \<le> 1048576" "0 \<le> u'" "u' \<le> 1048576"
    using assms by (simp_all add: t'_def u'_def)
  have x: "x * 1073741824 = ob" by (simp add: x_def)
  define d where "d = max 0 (u' - t')"
  have d: "0 \<le> d" "u' - t' \<le> d" "d = 0 \<or> d = u' - t'"
    by (auto simp: d_def max_def)
  have "\<bar>fl x - d\<bar> \<le> 1 / 1073741824"
  proof (cases "0 \<le> U - T")
    case True
    with f3 have g3: "\<bar>ob - (U - T)\<bar> \<le> (U - T) / 9007199254740992" by (simp add: max_def)
    have h1: "T \<le> t' * 1073741824 + t' * 1073741824 / 9007199254740992"
      and h2: "t' * 1073741824 - t' * 1073741824 / 9007199254740992 \<le> T"
      using f1 by linarith+
    have h3: "U \<le> u' * 1073741824 + u' * 1073741824 / 9007199254740992"
      and h4: "u' * 1073741824 - u' * 1073741824 / 9007199254740992 \<le> U"
      using f2 by linarith+
    have h5: "ob \<le> U - T + (U / 9007199254740992 - T / 9007199254740992)"
      and h6: "U - T - (U / 9007199254740992 - T / 9007199254740992) \<le> ob"
      using g3 by (simp_all add: diff_divide_distrib)
    have h7: "fl x \<le> x + x / 9007199254740992"
      and h8: "x - x / 9007199254740992 \<le> fl x"
      using f4 by linarith+
    have up: "fl x \<le> d + 1 / 1073741824"
      using d(3)
    proof
      assume "d = 0"
      with d(2) have "u' - t' \<le> 0" by simp
      with h1 h2 h3 h4 h5 h7 b ob0 x True have "fl x \<le> 1 / 1073741824" by linarith
      with \<open>d = 0\<close> show ?thesis by simp
    next
      assume e: "d = u' - t'"
      from h1 h2 h3 h4 h5 h7 b ob0 x True d(1) [unfolded e] have "fl x \<le> u' - t' + 1 / 1073741824"
        by linarith
      with e show ?thesis by simp
    qed
    have lo: "d - 1 / 1073741824 \<le> fl x"
      using d(3)
    proof
      assume "d = 0"
      moreover have "0 \<le> fl x" using ob0 by (simp add: x_def fl_nonneg)
      ultimately show ?thesis by simp
    next
      assume e: "d = u' - t'"
      from h1 h2 h3 h4 h6 h8 b ob0 x True d(1) [unfolded e] have "u' - t' - 1 / 1073741824 \<le> fl x"
        by linarith
      with e show ?thesis by simp
    qed
    from up lo show ?thesis by linarith
  next
    case False
    with f3 have g3: "ob = 0" by (simp add: max_def)
    then have "x = 0" by (simp add: x_def)
    then have z: "fl x = 0" by (simp add: fl_def)
    have h1: "T \<le> t' * 1073741824 + t' * 1073741824 / 9007199254740992"
      using f1 by linarith
    have h4: "u' * 1073741824 - u' * 1073741824 / 9007199254740992 \<le> U"
      using f2 by linarith
    have "d \<le> 1 / 1073741824"
      using d(3)
    proof
      assume "d = 0" then show ?thesis by simp
    next
      assume e: "d = u' - t'"
      from h1 h4 b False have "u' - t' \<le> 1 / 1073741824" by linarith
      with e show ?thesis by simp
    qed
    with d(1) show ?thesis unfolding z by linarith
  qed
  then show ?thesis by (simp add: r d_def t'_def u'_def)
qed

text \<open>
  Two services that are 1 GiB over their total in bytes. With 15.4 GiB of 16.4 GiB the
  doubles nearest to the rounded figures differ by less than 1, and so does the overage;
  with whole numbers of GiB every step is exact.
\<close>

lemma fl_164: "fl (164 / 10) = 4616189618054758 / 2 ^ 48"
  by (subst fl_eval [where e = 4])
    (simp_all add: round_half_even_def Let_def floor_numeral_div)

lemma fl_154: "fl (154 / 10) = 8669429282688205 / 2 ^ 49"
  by (subst fl_eval [where e = 3])
    (simp_all add: round_half_even_def Let_def floor_numeral_div)

lemma to_gb_164: "to_gb 17609365914 = 4616189618054758 / 2 ^ 48"
proof -
  have 1: "fl (17609365914 / GB) = 17609365914 / GB"
    using fl_dyadic [of 17609365914 "- 30"] by (simp add: GB_def)
  have 2: "round_half_even (17609365914 / GB * 10000) = 164000"
    by (simp add: round_half_even_def Let_def floor_numeral_div GB_def)
  have "to_gb 17609365914 = round4 (fl (17609365914 / GB))" by (simp add: to_gb_def)
  also have "\<dots> = fl (of_int (round_half_even (17609365914 / GB * 10000)) / 10000)"
    by (simp only: 1 round4_def)
  also have "\<dots> = fl (164 / 10)" by (simp only: 2) simp
  also have "\<dots> = 4616189618054758 / 2 ^ 48" by (rule fl_164)
  finally show ?thesis .
qed

lemma to_gb_154: "to_gb 16535624090 = 8669429282688205 / 2 ^ 49"
proof -
  have 1: "fl (16535624090 / GB) = 16535624090 / GB"
    using fl_dyadic [of 16535624090 "- 30"] by (simp add: GB_def)
  have 2: "round_half_even (16535624090 / GB * 10000) = 154000"
    by (simp add: round_half_even_def Let_def floor_numeral_div GB_def)
  have "to_gb 16535624090 = round4 (fl (16535624090 / GB))" by (simp add: to_gb_def)
  also have "\<dots> = fl (of_int (round_half_even (16535624090 / GB * 10000)) / 10000)"
    by (simp only: 1 round4_def)
  also have "\<dots> = fl (154 / 10)" by (simp only: 2) simp
  also have "\<dots> = 8669429282688205 / 2 ^ 49" by (rule fl_154)
  finally show ?thesis .
qed

lemma to_gb_101: "to_gb 108447914224 = 101"
proof -
  have 1: "fl (108447914224 / GB) = 108447914224 / GB"
    using fl_dyadic [of 108447914224 "- 30"] by (simp add: GB_def)
  have 2: "round_half_even (108447914224 / GB * 10000) = 1010000"
    by (simp add: round_half_even_def Let_def floor_numeral_div GB_def)
  have "to_gb 108447914224 = round4 (fl (108447914224 / GB))" by (simp add: to_gb_def)
  also have "\<dots> = fl (of_int (round_half_even (108447914224 / GB * 10000)) / 10000)"
    by (simp only: 1 round4_def)
  also have "\<dots> = fl 101" by (simp only: 2) simp
  also have "\<dots> = 101" using fl_of_nat_small [of 101] by simp
  finally show ?thesis .
qed

lemma overage_gb_164_154:
  "overage_gb (4616189618054758 / 2 ^ 48) (8669429282688205 / 2 ^ 49) = 1 - 1 / 2 ^ 49"
proof -
  define A :: rat where "A = 4616189618054758 / 2 ^ 48"
  define B :: rat where "B = 8669429282688205 / 2 ^ 49"
  have pos: "0 < A" "0 < B" by (simp_all add: A_def B_def)
  have eqa: "A * GB = 4616189618054758 * power_int 2 (- 18)"
    and eqb: "B * GB = 8669429282688205 * power_int 2 (- 19)"
    and diff: "A * GB - B * GB = 562949953421311 * power_int 2 (- 19)"
    and quot: "(A * GB - B * GB) / GB = 562949953421311 * power_int 2 (- 49)"
    by (simp_all add: A_def B_def GB_def)
  have a: "fl (A * GB) = A * GB"
    unfolding eqa using fl_dyadic [of 4616189618054758 "- 18"] by simp
  have b: "fl (B * GB) = B * GB"
    unfolding eqb using fl_dyadic [of 8669429282688205 "- 19"] by simp
  have c: "fl (A * GB - B * GB) = A * GB - B * GB"
    unfolding diff using fl_dyadic [of 562949953421311 "- 19"] by simp
  have d: "fl ((A * GB - B * GB) / GB) = (A * GB - B * GB) / GB"
    unfolding quot using fl_dyadic [of 562949953421311 "- 49"] by simp
  have gt: "B * GB < A * GB" by (simp add: A_def B_def GB_def)
  have "overage_gb A B = fl (fl (fl (A * GB) - fl (B * GB)) / GB)"
    using pos gt by (simp add: overage_gb_def Let_def a b)
  also have "\<dots> = (A * GB - B * GB) / GB" by (simp only: a b c d)
  also have "\<dots> = 1 - 1 / 2 ^ 49" by (simp add: A_def B_def GB_def)
  finally show ?thesis by (simp only: A_def B_def)
qed

lemma overage_gb_whole:
  assumes "0 < t" "t < u" "u < 2 ^ 20"
  shows "overage_gb (of_nat u) (of_nat t) = of_nat (u - t)"
proof -
  have small: "t < 2 ^ 53" "u < 2 ^ 53" "u - t < 2 ^ 53" "0 < u" "0 < u - t"
    using assms by simp_all
  have G: "GB = power_int 2 30" by (simp add: GB_def)
  have a: "fl (of_nat u * GB) = of_nat u * GB"
    unfolding G using small by (intro fl_dyadic)
  have b: "fl (of_nat t * GB) = of_nat t * GB"
    unfolding G using small assms(1) by (intro fl_dyadic)
  have "of_nat u * GB - of_nat t * GB = of_nat (u - t) * GB"
    using assms(2) by (simp add: of_nat_diff algebra_simps)
  moreover have "fl (of_nat (u - t) * GB) = of_nat (u - t) * GB"
    unfolding G using small by (intro fl_dyadic)
  ultimately have c: "fl (of_nat u * GB - of_nat t * GB) = of_nat (u - t) * GB"
    by simp
  have "of_nat (u - t) * GB / GB = (of_nat (u - t) :: rat)" by (simp add: GB_def)
  moreover have "fl (of_nat (u - t)) = of_nat (u - t)"
    using small by (intro fl_of_nat_small)
  ultimately have d: "fl (of_nat (u - t) * GB / GB) = of_nat (u - t)" by simp
  have gt: "of_nat t * GB < of_nat u * GB" using assms(2) by (simp add: GB_def)
  have "overage_gb (of_nat u) (of_nat t) =
      fl (fl (fl (of_nat u * GB) - fl (of_nat t * GB)) / GB)"
    using assms small gt by (simp add: overage_gb_def Let_def a b)
  also have "\<dots> = fl (fl (of_nat u * GB - of_nat t * GB) / GB)" by (simp only: a b)
  also have "\<dots> = fl (of_nat (u - t) * GB / GB)" by (simp only: c)
  also have "\<dots> = of_nat (u - t)" by (rule d)
  finally show ?thesis .
qed

subsection \<open>The deletion paths\<close>

text \<open>
  What the call of the panel leaves behind, and each deletion path by cases: cut short by an
  exception of the panel, or the row deleted and the owner notified.
\<close>

lemma delete_from_panel_eq:
  "delete_from_panel e s st =
     (delete_aborts e s,
      if panel_ready e s
      then panel_call (Delete_client (panel_id s) (inbound_id s) (client_uuid s)) st
      else st)"
  by (simp add: delete_from_panel_def delete_aborts_def panel_ready_def login_ok_def Let_def
      split: remote.splits)

lemma delete_service_for_overage_eq:
  "delete_service_for_overage e s st =
     (if delete_aborts e s then snd (delete_from_panel e s st)
      else notify_deleted s (Deleted_for_overage (service_id s))
             (delete_service (service_id s) (snd (delete_from_panel e s st))))"
  by (simp add: delete_service_for_overage_def delete_from_panel_eq)

lemma delete_exhausted_service_eq:
  "delete_exhausted_service e s st =
     (if delete_aborts e s then snd (delete_from_panel e s st)
      else notify_deleted s (Deleted_exhausted (service_id s))
             (delete_service (service_id s) (snd (delete_from_panel e s st))))"
  by (simp add: delete_exhausted_service_def delete_from_panel_eq)

lemma delete_expired_plan_service_eq:
  "delete_expired_plan_service e s st =
     (if delete_aborts e s then snd (delete_from_panel e s st)
      else notify_deleted s (Deleted_expired_plan (service_id s))
             (delete_service (service_id s) (snd (delete_from_panel e s st))))"
  by (simp add: delete_expired_plan_service_def delete_from_panel_eq)

lemma snd_delete_from_panel:
  "snd (delete_from_panel e s st) =
     (if panel_ready e s
      then panel_call (Delete_client (panel_id s) (inbound_id s) (client_uuid s)) st
      else st)"
  by (simp add: delete_from_panel_eq)

lemmas delete_defs = panel_call_def snd_delete_from_panel notify_deleted_def
  delete_service_for_overage_eq delete_exhausted_service_eq delete_expired_plan_service_eq

subsection \<open>Deletion notices go to the messenger directly\<close>

text \<open>
  C10. On each of the three deletion paths (overage, 24-hour sweep of exhausted services,
  24-hour sweep of expired plans) the dispatcher's queue is left as it was, whatever the
  path does, so neither the per-recipient spacing nor the concurrency gate of the dispatcher
  applies to the final notice: the notice to the owner is a call of the messenger itself.
  It is the only call of the messenger on the path, and it is made when the owner is found
  in the store and the path was not cut short by an exception of the panel.
\<close>

theorem deletion_notice_bypasses_queue:
  "message_queue (delete_service_for_overage e s st) = message_queue st \<and>
   message_queue (delete_exhausted_service e s st) = message_queue st \<and>
   message_queue (delete_expired_plan_service e s st) = message_queue st \<and>
   bot_sent (delete_service_for_overage e s st) = bot_sent st @
     (if delete_aborts e s then []
      else case users st (user_id s) of None \<Rightarrow> []
           | Some chat \<Rightarrow> [(chat, Deleted_for_overage (service_id s))]) \<and>
   bot_sent (delete_exhausted_service e s st) = bot_sent st @
     (if delete_aborts e s then []
      else case users st (user_id s) of None \<Rightarrow> []
           | Some chat \<Rightarrow> [(chat, Deleted_exhausted (service_id s))]) \<and>
   bot_sent (delete_expired_plan_service e s st) = bot_sent st @
     (if delete_aborts e s then []
      else case users st (user_id s) of None \<Rightarrow> []
           | Some chat \<Rightarrow> [(chat, Deleted_expired_plan (service_id s))])"
  by (simp add: delete_defs store_defs send_defs split: option.splits)

theorem deletion_notice_bypasses_queue_witness:
  "\<not> delete_aborts example_env example_service \<and>
   delete_aborts (example_env\<lparr>login := (\<lambda>p. Raises)\<rparr>) example_service \<and>
   message_queue (delete_exhausted_service example_env example_service
     (example_store [example_service])) = [] \<and>
   bot_sent (delete_exhausted_service example_env example_service
     (example_store [example_service])) = [(700, Deleted_exhausted 1)] \<and>
   message_queue (delete_expired_plan_service example_env example_service
     (example_store [example_service])) = [] \<and>
   bot_sent (delete_expired_plan_service example_env example_service
     (example_store [example_service])) = [(700, Deleted_expired_plan 1)] \<and>
   message_queue (delete_service_for_overage (example_env\<lparr>login := (\<lambda>p. Raises)\<rparr>)
     example_service (example_store [example_service])) = [] \<and>
   bot_sent (delete_service_for_overage (example_env\<lparr>login := (\<lambda>p. Raises)\<rparr>)
     example_service (example_store [example_service])) = []"
  using deletion_notice_bypasses_queue [of example_env example_service "example_store [example_service]"]
    deletion_notice_bypasses_queue [of "example_env\<lparr>login := (\<lambda>p. Raises)\<rparr>" example_service
      "example_store [example_service]"]
  by (simp add: example_defs delete_aborts_def)

subsection \<open>The fresh read of a flag before a send\<close>

text \<open>
  C5. Three of the four flag-guarded sends read the flag from the store before they queue
  the message; the 3-day expiry warning does not. With all four flags already set in the
  store and a snapshot of the row taken before they were set, the 70% warning, the exhaustion
  notification and the expiration notification queue nothing, and the 3-day warning is queued
  again.
\<close>

theorem three_days_warning_skips_fresh_read:
  "get_service_warning_flags
     (example_store [example_plan\<lparr>warned_70_percent := True, warned_100_percent := True,
        warned_one_week := True, warned_expired := True\<rparr>]) 1 warned_one_week \<and>
   message_queue (send_70_percent_warning example_plan
     (example_store [example_plan\<lparr>warned_70_percent := True, warned_100_percent := True,
        warned_one_week := True, warned_expired := True\<rparr>])) = [] \<and>
   message_queue (send_exhaustion_notification example_plan
     (example_store [example_plan\<lparr>warned_70_percent := True, warned_100_percent := True,
        warned_one_week := True, warned_expired := True\<rparr>])) = [] \<and>
   message_queue (send_plan_expiration_notification example_plan
     (example_store [example_plan\<lparr>warned_70_percent := True, warned_100_percent := True,
        warned_one_week := True, warned_expired := True\<rparr>])) = [] \<and>
   message_queue (send_three_days_expiration_warning example_plan 2
     (example_store [example_plan\<lparr>warned_70_percent := True, warned_100_percent := True,
        warned_one_week := True, warned_expired := True\<rparr>])) = [(700, Three_days_warning 1 2)] \<and>
   message_queue (check_plan_expiration example_env example_plan (example_client 0 0)
     (example_store [example_plan\<lparr>warned_70_percent := True, warned_100_percent := True,
        warned_one_week := True, warned_expired := True\<rparr>])) = [(700, Three_days_warning 1 2)]"
  by (simp add: example_defs store_defs send_defs check_plan_expiration_def)

subsection \<open>The scheduler's cadence\<close>

lemma sleeps_run_iteration:
  "sleeps (run_iteration it s) = sleeps s @
     [case ending it of Completed d \<Rightarrow> (if d < 180 then 180 - d else 1 / 10) | _ \<Rightarrow> 60]"
  by (simp add: run_iteration_def Let_def max_def split: outcome.splits)

lemma mon_run_iteration:
  "ending it = Completed d \<Longrightarrow> mon (run_iteration it s) =
     check_for_deletion (deletion_env it) (check_all_services (check_env it) (mon s))"
  by (simp add: run_iteration_def Let_def)

lemma monitoring_run_iteration:
  "monitoring (run_iteration it s) \<longleftrightarrow> monitoring s \<and> \<not> stop_called it"
  by (simp add: run_iteration_def Let_def split: outcome.splits)

lemma monitoring_loop_exit: "monitoring_loop its s = Some s' \<Longrightarrow> \<not> monitoring s'"
  by (induction its arbitrary: s) (auto split: if_splits)

lemma monitoring_loop_runs:
  "monitoring s \<Longrightarrow> \<forall>it\<in>set its. \<not> stop_called it \<Longrightarrow> monitoring_loop its s = None"
  by (induction its arbitrary: s) (auto simp: monitoring_run_iteration)

text \<open>
  C7, as the claim states it, fails: a pass that took 200 seconds is followed by a sleep of
  a tenth of a second, not of \<open>max 0 (180 - 200) = 0\<close> seconds.
\<close>

theorem scheduler_sleep_counterexample:
  "sleeps (run_iteration (example_iteration (Completed 200)) example_scheduler) = [1 / 10] \<and>
   max 0 (180 - 200) = (0::rat)"
  by (simp add: sleeps_run_iteration example_iteration_def example_scheduler_def)

text \<open>
  C7, amended. A pass of the loop that completes has run the reconciliation pass and then
  the deletion sweep; it sleeps \<open>180 - elapsed\<close> seconds when that is positive and a tenth
  of a second otherwise. A pass out of which an exception escapes sleeps 60 seconds. The
  loop returns only in a state whose monitoring flag is cleared; as long as nobody clears
  the flag it is still running after any number of passes, whatever their endings.
\<close>

theorem scheduler_cadence:
  "sleeps (run_iteration it s) = sleeps s @
     [case ending it of Completed d \<Rightarrow> (if d < 180 then 180 - d else 1 / 10) | _ \<Rightarrow> 60] \<and>
   (\<forall>d. ending it = Completed d \<longrightarrow>
      mon (run_iteration it s) =
        check_for_deletion (deletion_env it) (check_all_services (check_env it) (mon s))) \<and>
   (\<forall>s'. monitoring_loop its s = Some s' \<longrightarrow> \<not> monitoring s') \<and>
   (monitoring s \<and> (\<forall>x\<in>set its. \<not> stop_called x) \<longrightarrow> monitoring_loop its s = None) \<and>
   ((\<forall>x\<in>set its. \<not> stop_called x) \<longrightarrow> start_monitoring its m = None)"
  by (simp add: sleeps_run_iteration mon_run_iteration monitoring_loop_exit
      monitoring_loop_runs start_monitoring_def)

theorem scheduler_cadence_witness:
  "ending (example_iteration (Completed 30)) = Completed 30 \<and>
   monitoring example_scheduler \<and>
   \<not> stop_called (example_iteration Raised_before_check) \<and>
   \<not> stop_called (example_iteration (Completed 30)) \<and>
   sleeps (run_iteration (example_iteration (Completed 30)) example_scheduler) = [150] \<and>
   mon (run_iteration (example_iteration (Completed 30)) example_scheduler) =
     check_for_deletion example_env (check_all_services example_env (example_store [])) \<and>
   monitoring_loop [example_iteration Raised_before_check, example_iteration (Completed 30)]
     example_scheduler = None \<and>
   start_monitoring [example_iteration Raised_before_check, example_iteration (Completed 30)]
     (example_store []) = None"
  using scheduler_cadence [of "example_iteration (Completed 30)" example_scheduler
      "[example_iteration Raised_before_check, example_iteration (Completed 30)]"
      "example_store []"]
  by (simp add: example_iteration_def example_scheduler_def)


subsection \<open>Unlimited services\<close>

text \<open>
  The evaluator and the expiry check resolve the total of a client each in its own way.
  They agree unless \<^verbatim>\<open>total_traffic\<close> is present with the value \<^verbatim>\<open>None\<close>: then the
  evaluator resolves 0, and the expiry check falls back to \<^verbatim>\<open>totalGB\<close>.
\<close>

lemma expiry_total_unlimited:
  assumes "total_traffic c \<noteq> Null" "total_traffic_bytes c \<le> 0"
  shows "case expiry_total c of None \<Rightarrow> True | Some n \<Rightarrow> n \<le> 0"
  using assms
  by (auto simp: total_traffic_bytes_def expiry_total_def py_or_def get_or_0_def float_or_0_def
      Let_def split: json.splits option.splits if_splits)

lemma expiry_total_null:
  "total_traffic c = Null \<Longrightarrow> total_traffic_bytes c = 0 \<and> expiry_total c = get_or_0 (totalGB c)"
  by (simp add: total_traffic_bytes_def expiry_total_def py_or_def get_or_0_def float_or_0_def)

lemma check_plan_expiration_unlimited:
  assumes "case expiry_total c of None \<Rightarrow> True | Some n \<Rightarrow> n \<le> 0"
  shows "check_plan_expiration e s c st =
     (if product_id s = None \<or> product_id s = Some 0 then st
      else case expires_at s of
        None \<Rightarrow> st
      | Some exp_date \<Rightarrow>
          (let remaining_days = (exp_date - now e) div 86400;
               st1 = (if remaining_days \<le> 3 \<and> remaining_days > 0 \<and> \<not> warned_one_week s
                      then update_service_warned_one_week (service_id s) True
                             (send_three_days_expiration_warning s remaining_days st)
                      else st)
           in if exp_date \<le> now e \<and> status s \<noteq> ''disabled''
              then handle_plan_expiration e s st1 else st1))"
proof (cases "expiry_total c")
  case None
  then show ?thesis by (simp add: check_plan_expiration_def Let_def split: option.splits)
next
  case (Some n)
  with assms have "\<not> n > 0" by simp
  with Some show ?thesis by (simp add: check_plan_expiration_def Let_def split: option.splits)
qed

lemma check_plan_expiration_unlimited_frame:
  assumes "case expiry_total c of None \<Rightarrow> True | Some n \<Rightarrow> n \<le> 0"
  shows "bot_sent (check_plan_expiration e s c st) = bot_sent st"
    and "pending_updates (check_plan_expiration e s c st) = pending_updates st"
    and "map service_id (services (check_plan_expiration e s c st)) = map service_id (services st)"
    and "map exhausted_at (services (check_plan_expiration e s c st)) = map exhausted_at (services st)"
    and "map warned_70_percent (services (check_plan_expiration e s c st)) =
           map warned_70_percent (services st)"
    and "map warned_100_percent (services (check_plan_expiration e s c st)) =
           map warned_100_percent (services st)"
    and "sends_gated W70 i (check_plan_expiration e s c st) = sends_gated W70 i st"
    and "sends_gated W100 i (check_plan_expiration e s c st) = sends_gated W100 i st"
  unfolding check_plan_expiration_unlimited [OF assms]
  by (simp_all add: Let_def handle_plan_expiration_def store_defs send_defs panel_call_def
        sends_gated_def o_def split: option.splits)

text \<open>
  When the evaluator resolves a total of zero or less from a client whose
  \<^verbatim>\<open>total_traffic\<close> is not \<^verbatim>\<open>None\<close>, the evaluation is the expiry check of a plan service
  followed by the staging of the usage counter, and nothing else: no 70% warning and no
  exhaustion notification is queued, no row loses or gains an exhaustion anchor or one of
  the two traffic flags, no row is deleted and no deletion notice is sent. A volume service
  is left exactly as it was, whatever the client says.
\<close>

lemma unlimited_total_skips_thresholds:
  assumes "total_traffic_bytes c \<le> 0" "total_traffic c \<noteq> Null \<or> product_id s = None"
  shows "process_client_traffic e s c st =
           stage_update (service_id s) (to_gb (used_traffic_bytes c))
             (if product_id s \<noteq> None then check_plan_expiration e s c st else st) \<and>
         pending_updates (process_client_traffic e s c st) =
           pending_updates st @ [(service_id s, to_gb (used_traffic_bytes c))] \<and>
         sends_gated W70 i (process_client_traffic e s c st) = sends_gated W70 i st \<and>
         sends_gated W100 i (process_client_traffic e s c st) = sends_gated W100 i st \<and>
         bot_sent (process_client_traffic e s c st) = bot_sent st \<and>
         map service_id (services (process_client_traffic e s c st)) =
           map service_id (services st) \<and>
         map exhausted_at (services (process_client_traffic e s c st)) =
           map exhausted_at (services st) \<and>
         map warned_70_percent (services (process_client_traffic e s c st)) =
           map warned_70_percent (services st) \<and>
         map warned_100_percent (services (process_client_traffic e s c st)) =
           map warned_100_percent (services st) \<and>
         (product_id s = None \<longrightarrow>
            services (process_client_traffic e s c st) = services st \<and>
            panel_calls (process_client_traffic e s c st) = panel_calls st \<and>
            message_queue (process_client_traffic e s c st) = message_queue st)"
proof -
  have eq: "process_client_traffic e s c st =
           stage_update (service_id s) (to_gb (used_traffic_bytes c))
             (if product_id s \<noteq> None then check_plan_expiration e s c st else st)"
    using assms(1) by (simp add: process_client_traffic_def Let_def)
  show ?thesis
  proof (cases "product_id s = None")
    case True
    then show ?thesis unfolding eq by (simp add: stage_update_def sends_gated_def)
  next
    case False
    with assms have "case expiry_total c of None \<Rightarrow> True | Some n \<Rightarrow> n \<le> 0"
      by (simp add: expiry_total_unlimited)
    from check_plan_expiration_unlimited_frame [OF this, where e = e and s = s and st = st]
    show ?thesis unfolding eq by (simp add: stage_update_def sends_gated_def)
  qed
qed

text \<open>
  C6. For the client of the example whose \<^verbatim>\<open>total_traffic\<close> is \<^verbatim>\<open>None\<close> the evaluator
  resolves a total of 0, so the service counts as unlimited, and the usage counter is
  staged. Yet the expiry check, run first, has read 10 GiB from \<^verbatim>\<open>totalGB\<close>, found 12 GiB
  used (120%) within the grace period of the lapsed plan, and deleted the service for
  overage: the remote client and the row are gone and the owner has the deletion notice.
\<close>

theorem unlimited_service_overage_check:
  "total_traffic_bytes null_total_client \<le> 0 \<and>
   expiry_total null_total_client = Some (10 * 1073741824) \<and>
   pending_updates (process_client_traffic example_env lapsed_plan null_total_client
      (example_store [lapsed_plan])) = [(1, 12)] \<and>
   services (process_client_traffic example_env lapsed_plan null_total_client
      (example_store [lapsed_plan])) = [] \<and>
   panel_calls (process_client_traffic example_env lapsed_plan null_total_client
      (example_store [lapsed_plan])) = [Delete_client 2 3 ''u1''] \<and>
   bot_sent (process_client_traffic example_env lapsed_plan null_total_client
      (example_store [lapsed_plan])) = [(700, Deleted_for_overage 1)] \<and>
   message_queue (process_client_traffic example_env lapsed_plan null_total_client
      (example_store [lapsed_plan])) = []"
proof -
  let ?st = "example_store [lapsed_plan]"
  have t: "total_traffic_bytes null_total_client = 0"
    and x: "expiry_total null_total_client = Some (10 * 1073741824)"
    by (simp_all add: expiry_total_null null_total_client_def get_or_0_def)
  have u: "used_traffic_bytes null_total_client = 12 * GB"
    by (simp add: used_traffic_bytes_def null_total_client_def get_or_0_def float_or_0_def GB_def)
  have g: "get_or_0 (used_traffic null_total_client) = Some (12 * 1073741824)"
    by (simp add: null_total_client_def get_or_0_def)
  have cpe: "check_plan_expiration example_env lapsed_plan null_total_client ?st =
      delete_service_for_overage example_env lapsed_plan ?st"
    by (simp add: check_plan_expiration_def x g check_expired_service_overage_def Let_def
        lapsed_plan_def example_service_def example_env_def)
  have g12: "to_gb (12 * GB) = 12"
    using to_gb_GB [of 12] by simp
  have r: "process_client_traffic example_env lapsed_plan null_total_client ?st =
      stage_update 1 12 (delete_service_for_overage example_env lapsed_plan ?st)"
    by (simp add: process_client_traffic_def Let_def t u cpe g12)
      (simp add: lapsed_plan_def example_service_def)
  show ?thesis
    unfolding r
    by (simp add: t x stage_update_def delete_defs delete_aborts_def panel_ready_def store_defs
        bot_send_message_def lapsed_plan_def example_defs)
qed

subsection \<open>How the basic operations act on flags, rows and the queue\<close>

lemma flag_of_update [simp]:
  "flag_of k (r\<lparr>status := v\<rparr>) = flag_of k r"
  "flag_of k (r\<lparr>exhausted_at := t\<rparr>) = flag_of k r"
  "flag_of k (r\<lparr>expired_at := t\<rparr>) = flag_of k r"
  "flag_of k (r\<lparr>used_gb := g\<rparr>) = flag_of k r"
  "flag_of k (r\<lparr>warned_70_percent := True\<rparr>) = (k = W70 \<or> flag_of k r)"
  "flag_of k (r\<lparr>warned_100_percent := True\<rparr>) = (k = W100 \<or> flag_of k r)"
  "flag_of k (r\<lparr>warned_one_week := True\<rparr>) = (k = W3d \<or> flag_of k r)"
  "flag_of k (r\<lparr>warned_expired := True\<rparr>) = (k = Wexp \<or> flag_of k r)"
  by (cases k; simp)+

lemmas row_update_defs = update_service_status_def update_service_exhaustion_time_def
  update_service_expiration_time_def update_service_70_percent_warning_def
  update_service_100_percent_warning_def update_service_warned_one_week_def
  update_service_expired_warning_def

lemma sends_gated_frame [simp]:
  "sends_gated k j (update_row i f st) = sends_gated k j st"
  "sends_gated k j (delete_service i st) = sends_gated k j st"
  "sends_gated k j (panel_call pc st) = sends_gated k j st"
  "sends_gated k j (bot_send_message chat m st) = sends_gated k j st"
  "sends_gated k j (stage_update i g st) = sends_gated k j st"
  "sends_gated k j (send_message_safe chat m st) =
     sends_gated k j st + (if gated_by k j m then 1 else 0)"
  by (simp_all add: sends_gated_def update_row_def delete_service_def panel_call_def
      bot_send_message_def stage_update_def send_message_safe_def)

lemma all_flagged_frame [simp]:
  "all_flagged k j (panel_call pc st) = all_flagged k j st"
  "all_flagged k j (bot_send_message chat m st) = all_flagged k j st"
  "all_flagged k j (stage_update i g st) = all_flagged k j st"
  "all_flagged k j (send_message_safe chat m st) = all_flagged k j st"
  "all_flagged k j (delete_service i st) = (i = j \<or> all_flagged k j st)"
  by (auto simp: all_flagged_def panel_call_def bot_send_message_def stage_update_def
      send_message_safe_def delete_service_def)

lemma all_flagged_update_row:
  assumes "\<And>r. service_id (f r) = service_id r"
  shows "all_flagged k j (update_row i f st) =
     (\<forall>r\<in>set (services st). service_id r = j \<longrightarrow> flag_of k (if j = i then f r else r))"
  using assms by (auto simp: all_flagged_def update_row_def)

lemma all_flagged_updates [simp]:
  "all_flagged k j (update_service_status i v st) = all_flagged k j st"
  "all_flagged k j (update_service_exhaustion_time e i st) = all_flagged k j st"
  "all_flagged k j (update_service_expiration_time e i st) = all_flagged k j st"
  "all_flagged k j (update_service_70_percent_warning i True st) =
     (k = W70 \<and> j = i \<or> all_flagged k j st)"
  "all_flagged k j (update_service_100_percent_warning i True st) =
     (k = W100 \<and> j = i \<or> all_flagged k j st)"
  "all_flagged k j (update_service_warned_one_week i True st) =
     (k = W3d \<and> j = i \<or> all_flagged k j st)"
  "all_flagged k j (update_service_expired_warning i True st) =
     (k = Wexp \<and> j = i \<or> all_flagged k j st)"
  by (auto simp: row_update_defs all_flagged_update_row) (auto simp: all_flagged_def)

lemma sends_gated_updates [simp]:
  "sends_gated k j (update_service_status i v st) = sends_gated k j st"
  "sends_gated k j (update_service_exhaustion_time e i st) = sends_gated k j st"
  "sends_gated k j (update_service_expiration_time e i st) = sends_gated k j st"
  "sends_gated k j (update_service_70_percent_warning i w st) = sends_gated k j st"
  "sends_gated k j (update_service_100_percent_warning i w st) = sends_gated k j st"
  "sends_gated k j (update_service_warned_one_week i w st) = sends_gated k j st"
  "sends_gated k j (update_service_expired_warning i w st) = sends_gated k j st"
  by (simp_all add: row_update_defs)

lemma ids_update_row:
  assumes "\<And>r. service_id (f r) = service_id r"
  shows "map service_id (services (update_row i f st)) = map service_id (services st)"
  using assms by (simp add: update_row_def)

lemma row_ids_update_row:
  assumes "\<And>r. service_id (f r) = service_id r"
  shows "row_ids (update_row i f st) = row_ids st"
  using ids_update_row [OF assms, of i st] by (metis row_ids_def set_map)

lemma row_ids_frame [simp]:
  "row_ids (panel_call pc st) = row_ids st"
  "row_ids (bot_send_message chat m st) = row_ids st"
  "row_ids (stage_update i g st) = row_ids st"
  "row_ids (send_message_safe chat m st) = row_ids st"
  "row_ids (delete_service i st) = row_ids st - {i}"
  "row_ids (update_service_status i v st) = row_ids st"
  "row_ids (update_service_exhaustion_time e i st) = row_ids st"
  "row_ids (update_service_expiration_time e i st) = row_ids st"
  "row_ids (update_service_70_percent_warning i w st) = row_ids st"
  "row_ids (update_service_100_percent_warning i w st) = row_ids st"
  "row_ids (update_service_warned_one_week i w st) = row_ids st"
  "row_ids (update_service_expired_warning i w st) = row_ids st"
  by (auto simp: row_update_defs row_ids_update_row)
     (auto simp: row_ids_def panel_call_def bot_send_message_def stage_update_def
      send_message_safe_def delete_service_def)

lemma users_frame [simp]:
  "users (panel_call pc st) = users st"
  "users (bot_send_message chat m st) = users st"
  "users (stage_update i g st) = users st"
  "users (send_message_safe chat m st) = users st"
  "users (delete_service i st) = users st"
  "users (update_row i f st) = users st"
  by (simp_all add: panel_call_def bot_send_message_def stage_update_def
      send_message_safe_def delete_service_def update_row_def)

lemma get_service_frame [simp]:
  "get_service (panel_call pc st) = get_service st"
  "get_service (bot_send_message chat m st) = get_service st"
  "get_service (stage_update i g st) = get_service st"
  "get_service (send_message_safe chat m st) = get_service st"
  by (simp_all add: fun_eq_iff get_service_def panel_call_def bot_send_message_def
      stage_update_def send_message_safe_def)

lemma find_update_row:
  assumes "\<And>r. service_id (f r) = service_id r"
  shows "find (\<lambda>s. service_id s = j) (map (\<lambda>s. if service_id s = i then f s else s) xs) =
     map_option (\<lambda>s. if service_id s = i then f s else s) (find (\<lambda>s. service_id s = j) xs)"
  using assms by (induction xs) auto

lemma get_service_update_row:
  assumes "\<And>r. service_id (f r) = service_id r"
  shows "get_service (update_row i f st) j =
     map_option (\<lambda>s. if service_id s = i then f s else s) (get_service st j)"
  using assms by (simp add: get_service_def update_row_def find_update_row)

lemma store_flag_if_all_flagged:
  assumes "all_flagged k i st" and "i \<in> row_ids st"
  shows "get_service_warning_flags st i (flag_of k)"
proof -
  from assms(2) obtain r where r: "find (\<lambda>s. service_id s = i) (services st) = Some r"
    by (cases "find (\<lambda>s. service_id s = i) (services st)") (auto simp: row_ids_def find_None_iff)
  then have "r \<in> set (services st) \<and> service_id r = i"
    by (auto simp: find_Some_iff)
  with r assms(1) show ?thesis
    by (simp add: get_service_warning_flags_def get_service_def all_flagged_def)
qed

lemma store_flag_frame [simp]:
  "get_service_warning_flags (panel_call pc st) = get_service_warning_flags st"
  "get_service_warning_flags (stage_update i g st) = get_service_warning_flags st"
  "get_service_warning_flags (send_message_safe chat m st) = get_service_warning_flags st"
  by (simp_all add: fun_eq_iff get_service_warning_flags_def)


subsection \<open>Every step respects the gates\<close>

lemma gated_step_refl [simp]: "gated_step k j st st"
  by (simp add: gated_step_def)

lemma gated_step_trans:
  "gated_step k j st st' \<Longrightarrow> gated_step k j st' st'' \<Longrightarrow> gated_step k j st st''"
  by (auto simp: gated_step_def)

lemma gated_step_quiet:
  assumes "sends_gated k j st' = sends_gated k j st"
    and "all_flagged k j st \<Longrightarrow> all_flagged k j st'"
  shows "gated_step k j st st'"
  using assms by (auto simp: gated_step_def)

lemma gated_step_frame [simp]:
  "gated_step k j st (panel_call pc st)"
  "gated_step k j st (bot_send_message chat m st)"
  "gated_step k j st (stage_update i g st)"
  "gated_step k j st (update_service_status i v st)"
  "gated_step k j st (update_service_exhaustion_time e i st)"
  "gated_step k j st (update_service_expiration_time e i st)"
  "gated_step k j st (delete_service i st)"
  by (simp_all add: gated_step_quiet)

lemma gated_step_70:
  assumes "service_id s \<in> row_ids st"
  shows "gated_step k j st
     (update_service_70_percent_warning (service_id s) True (send_70_percent_warning s st))"
  using assms store_flag_if_all_flagged [of W70 "service_id s" st]
  by (cases k)
     (auto simp: gated_step_def send_70_percent_warning_def get_user_by_id_def
       split: option.splits)

lemma gated_step_exhaustion_notification:
  assumes "service_id s \<in> row_ids st"
  shows "gated_step k j st (send_exhaustion_notification s st)"
  using assms store_flag_if_all_flagged [of W100 "service_id s" st]
  by (cases k)
     (auto simp: gated_step_def send_exhaustion_notification_def get_user_by_id_def
       split: option.splits)

lemma gated_step_plan_expiration_notification:
  assumes "service_id s \<in> row_ids st"
  shows "gated_step k j st (send_plan_expiration_notification s st)"
  using assms store_flag_if_all_flagged [of Wexp "service_id s" st]
  by (cases k)
     (auto simp: gated_step_def send_plan_expiration_notification_def get_user_by_id_def
       split: option.splits)

lemma gated_step_three_days:
  assumes "all_flagged W3d (service_id s) st \<longrightarrow> warned_one_week s" and "\<not> warned_one_week s"
  shows "gated_step k j st
     (update_service_warned_one_week (service_id s) True
        (send_three_days_expiration_warning s d st))"
  using assms
  by (cases k)
     (auto simp: gated_step_def send_three_days_expiration_warning_def get_user_by_id_def
       split: option.splits)

lemma gated_step_delete_service_for_overage:
  "gated_step k j st (delete_service_for_overage e s st)"
  "gated_step k j st (delete_exhausted_service e s st)"
  "gated_step k j st (delete_expired_plan_service e s st)"
  by (auto simp: delete_service_for_overage_eq delete_exhausted_service_eq
      delete_expired_plan_service_eq notify_deleted_def snd_delete_from_panel
      get_user_by_id_def gated_step_quiet split: option.splits)

lemma gated_step_overage:
  "gated_step k j st (check_disabled_service_overage e s p u t st)"
  "gated_step k j st (check_expired_service_overage e s p u t st)"
  by (simp_all add: check_disabled_service_overage_def check_expired_service_overage_def
      gated_step_delete_service_for_overage split: option.splits)

lemma row_ids_sends [simp]:
  "row_ids (send_70_percent_warning s st) = row_ids st"
  "row_ids (send_exhaustion_notification s st) = row_ids st"
  "row_ids (send_three_days_expiration_warning s d st) = row_ids st"
  "row_ids (send_plan_expiration_notification s st) = row_ids st"
  by (simp_all add: send_70_percent_warning_def send_exhaustion_notification_def
      send_three_days_expiration_warning_def send_plan_expiration_notification_def
      get_user_by_id_def split: option.splits)

lemma row_ids_handle [simp]:
  "row_ids (handle_traffic_exhausted e s st) = row_ids st"
  "row_ids (handle_plan_expiration e s st) = row_ids st"
  by (simp_all add: handle_traffic_exhausted_def handle_plan_expiration_def Let_def)

lemma gated_step_handle_traffic_exhausted:
  assumes "service_id s \<in> row_ids st"
  shows "gated_step k j st (handle_traffic_exhausted e s st)"
proof -
  let ?st3 = "update_service_exhaustion_time e (service_id s)
     (update_service_status (service_id s) ''disabled''
        (panel_call (Disable_client (panel_id s) (inbound_id s) (client_uuid s)) st))"
  have "gated_step k j st ?st3"
    by (simp add: gated_step_quiet)
  moreover have "gated_step k j ?st3 (send_exhaustion_notification s ?st3)"
    using assms by (simp add: gated_step_exhaustion_notification)
  ultimately have "gated_step k j st (send_exhaustion_notification s ?st3)"
    by (rule gated_step_trans)
  then show ?thesis
    by (simp add: handle_traffic_exhausted_def Let_def)
qed

lemma gated_step_handle_plan_expiration:
  assumes "service_id s \<in> row_ids st"
  shows "gated_step k j st (handle_plan_expiration e s st)"
proof -
  let ?st3 = "update_service_expiration_time e (service_id s)
     (update_service_status (service_id s) ''disabled''
        (panel_call (Disable_client (panel_id s) (inbound_id s) (client_uuid s)) st))"
  have "gated_step k j st ?st3"
    by (simp add: gated_step_quiet)
  moreover have "gated_step k j ?st3 (send_plan_expiration_notification s ?st3)"
    using assms by (simp add: gated_step_plan_expiration_notification)
  ultimately have "gated_step k j st (send_plan_expiration_notification s ?st3)"
    by (rule gated_step_trans)
  then show ?thesis
    by (simp add: handle_plan_expiration_def Let_def)
qed

lemma row_ids_check_plan_expiration:
  "status s \<noteq> ''disabled'' \<Longrightarrow> row_ids (check_plan_expiration e s c st) = row_ids st"
  by (simp add: check_plan_expiration_def Let_def split: option.splits)

lemma gated_step_check_plan_expiration:
  assumes "service_id s \<in> row_ids st"
    and "all_flagged W3d (service_id s) st \<longrightarrow> warned_one_week s"
  shows "gated_step k j st (check_plan_expiration e s c st)"
proof -
  define st1 where "st1 d = (if d \<le> 3 \<and> d > 0 \<and> \<not> warned_one_week s
       then update_service_warned_one_week (service_id s) True
              (send_three_days_expiration_warning s d st)
       else st)" for d :: int
  have a: "gated_step k j st (st1 d)" for d
    unfolding st1_def using gated_step_three_days [OF assms(2)] by simp
  have r: "service_id s \<in> row_ids (st1 d)" for d
    unfolding st1_def using assms(1) by simp
  have b: "gated_step k j st (handle_plan_expiration e s (st1 d))" for d
    using a gated_step_handle_plan_expiration [OF r] by (rule gated_step_trans)
  have c: "gated_step k j st (check_expired_service_overage e s p u t (st1 d))" for d p u t
    using a gated_step_overage(2) by (rule gated_step_trans)
  have eq: "check_plan_expiration e s c st =
     (if product_id s = None \<or> product_id s = Some 0 then st
      else case expires_at s of
        None \<Rightarrow> st
      | Some exp_date \<Rightarrow>
          (let d = (exp_date - now e) div 86400
           in if exp_date \<le> now e then
                (if status s \<noteq> ''disabled'' then handle_plan_expiration e s (st1 d)
                 else if expired_at s \<noteq> None then
                   (case expiry_total c of
                      None \<Rightarrow> st1 d
                    | Some total_b \<Rightarrow>
                        if total_b > 0 then
                          (case get_or_0 (used_traffic c) of
                             None \<Rightarrow> st1 d
                           | Some used_b \<Rightarrow>
                               check_expired_service_overage e s
                                 (of_int used_b / of_int total_b * 100)
                                 (to_gb (of_int used_b)) (to_gb (of_int total_b)) (st1 d))
                        else st1 d)
                 else st1 d)
              else st1 d))"
    unfolding check_plan_expiration_def st1_def Let_def by simp
  show ?thesis
    unfolding eq using a b c by (simp add: Let_def split: option.splits)
qed

lemma gated_step_process_client_traffic:
  assumes "s \<in> set (services st)"
  shows "gated_step k j st (process_client_traffic e s c st)"
proof -
  define st1 where "st1 = (if product_id s \<noteq> None then check_plan_expiration e s c st else st)"
  define st2 where "st2 = stage_update (service_id s) (to_gb (used_traffic_bytes c)) st1"
  define st3 where "st3 = (if usage_percentage c \<ge> 70 \<and> usage_percentage c < 100 then
                      (if \<not> warned_70_percent s \<and> status s \<noteq> ''disabled''
                       then update_service_70_percent_warning (service_id s) True
                              (send_70_percent_warning s st2)
                       else st2)
                    else st2)"
  from assms have inrow: "service_id s \<in> row_ids st"
    by (auto simp: row_ids_def)
  from assms have fresh: "all_flagged W3d (service_id s) st \<longrightarrow> warned_one_week s"
    by (auto simp: all_flagged_def)
  have g1: "gated_step k j st st1"
    unfolding st1_def using inrow fresh by (simp add: gated_step_check_plan_expiration)
  have r1: "status s \<noteq> ''disabled'' \<Longrightarrow> service_id s \<in> row_ids st1"
    unfolding st1_def using inrow by (simp add: row_ids_check_plan_expiration)
  have "gated_step k j st1 st2"
    unfolding st2_def by simp
  with g1 have g2: "gated_step k j st st2"
    by (rule gated_step_trans)
  have r2: "status s \<noteq> ''disabled'' \<Longrightarrow> service_id s \<in> row_ids st2"
    unfolding st2_def using r1 by simp
  have "gated_step k j st2 st3"
    unfolding st3_def using r2 by (simp add: gated_step_70)
  with g2 have g3: "gated_step k j st st3"
    by (rule gated_step_trans)
  have r3: "status s \<noteq> ''disabled'' \<Longrightarrow> service_id s \<in> row_ids st3"
    unfolding st3_def using r2 by simp
  have g4: "status s \<noteq> ''disabled'' \<Longrightarrow> gated_step k j st (handle_traffic_exhausted e s st3)"
    using g3 gated_step_handle_traffic_exhausted [OF r3] by (blast intro: gated_step_trans)
  have g5: "gated_step k j st (check_disabled_service_overage e s p u t st3)" for p u t
    using g3 gated_step_overage(1) by (rule gated_step_trans)
  have eq: "process_client_traffic e s c st =
     (if total_traffic_bytes c \<le> 0 then st2
      else if usage_percentage c \<ge> 100 then
              (if status s \<noteq> ''disabled'' then handle_traffic_exhausted e s st3
               else check_disabled_service_overage e s (usage_percentage c)
                      (to_gb (used_traffic_bytes c)) (to_gb (total_traffic_bytes c)) st3)
            else st3)"
    unfolding st1_def st2_def st3_def process_client_traffic_def Let_def by simp
  show ?thesis
    unfolding eq using g2 g3 g4 g5 by simp
qed


subsection \<open>No step resets a flag or touches another service's row\<close>

lemma flags_kept_refl [simp]: "flags_kept st st"
  by (auto simp: flags_kept_def)

lemma flags_kept_trans: "flags_kept st st' \<Longrightarrow> flags_kept st' st'' \<Longrightarrow> flags_kept st st''"
  unfolding flags_kept_def by (metis (no_types, lifting))

lemma others_untouched_refl [simp]: "others_untouched i st st"
  by (simp add: others_untouched_def)

lemma kept_frame [simp]:
  "flags_kept st (panel_call pc st') = flags_kept st st'"
  "flags_kept st (bot_send_message chat m st') = flags_kept st st'"
  "flags_kept st (stage_update i' g st') = flags_kept st st'"
  "flags_kept st (send_message_safe chat m st') = flags_kept st st'"
  "others_untouched i st (panel_call pc st') = others_untouched i st st'"
  "others_untouched i st (bot_send_message chat m st') = others_untouched i st st'"
  "others_untouched i st (stage_update i' g st') = others_untouched i st st'"
  "others_untouched i st (send_message_safe chat m st') = others_untouched i st st'"
  by (simp_all add: flags_kept_def others_untouched_def panel_call_def bot_send_message_def
      stage_update_def send_message_safe_def)

lemma flags_kept_update_row:
  assumes "flags_kept st st'"
    and "\<And>r. service_id (f r) = service_id r"
    and "\<And>r. (warned_70_percent r \<longrightarrow> warned_70_percent (f r)) \<and>
             (warned_100_percent r \<longrightarrow> warned_100_percent (f r)) \<and>
             (warned_one_week r \<longrightarrow> warned_one_week (f r)) \<and>
             (warned_expired r \<longrightarrow> warned_expired (f r))"
  shows "flags_kept st (update_row i f st')"
proof (unfold flags_kept_def, intro ballI)
  fix r' assume "r' \<in> set (services (update_row i f st'))"
  then obtain q where q: "q \<in> set (services st')"
    and r': "r' = (if service_id q = i then f q else q)"
    by (auto simp: update_row_def)
  from assms(1) q obtain r where r: "r \<in> set (services st)" "service_id r = service_id q"
    "warned_70_percent r \<longrightarrow> warned_70_percent q" "warned_100_percent r \<longrightarrow> warned_100_percent q"
    "warned_one_week r \<longrightarrow> warned_one_week q" "warned_expired r \<longrightarrow> warned_expired q"
    unfolding flags_kept_def by blast
  have "service_id r = service_id r' \<and>
            (warned_70_percent r \<longrightarrow> warned_70_percent r') \<and>
            (warned_100_percent r \<longrightarrow> warned_100_percent r') \<and>
            (warned_one_week r \<longrightarrow> warned_one_week r') \<and>
            (warned_expired r \<longrightarrow> warned_expired r')"
    using r r' assms(2) [of q] assms(3) [of q] by auto
  with r(1) show "\<exists>r\<in>set (services st). service_id r = service_id r' \<and>
            (warned_70_percent r \<longrightarrow> warned_70_percent r') \<and>
            (warned_100_percent r \<longrightarrow> warned_100_percent r') \<and>
            (warned_one_week r \<longrightarrow> warned_one_week r') \<and>
            (warned_expired r \<longrightarrow> warned_expired r')"
    by blast
qed

lemma flags_kept_ops:
  assumes "flags_kept st st'"
  shows "flags_kept st (update_service_status i v st')"
    and "flags_kept st (update_service_exhaustion_time e i st')"
    and "flags_kept st (update_service_expiration_time e i st')"
    and "flags_kept st (update_service_70_percent_warning i True st')"
    and "flags_kept st (update_service_100_percent_warning i True st')"
    and "flags_kept st (update_service_warned_one_week i True st')"
    and "flags_kept st (update_service_expired_warning i True st')"
    and "flags_kept st (update_row i (\<lambda>s. s\<lparr>used_gb := g\<rparr>) st')"
    and "flags_kept st (delete_service i st')"
  using assms
  by (simp_all add: row_update_defs flags_kept_update_row)
     (auto simp: flags_kept_def delete_service_def)

lemma others_untouched_update_row:
  assumes "others_untouched i st st'" and "\<And>r. service_id (f r) = service_id r"
  shows "others_untouched i st (update_row i f st')"
  using assms ids_update_row [of f i st', OF assms(2)]
  by (auto simp: others_untouched_def) (auto simp: update_row_def)

lemma others_untouched_ops:
  assumes "others_untouched i st st'"
  shows "others_untouched i st (update_service_status i v st')"
    and "others_untouched i st (update_service_exhaustion_time e i st')"
    and "others_untouched i st (update_service_expiration_time e i st')"
    and "others_untouched i st (update_service_70_percent_warning i w st')"
    and "others_untouched i st (update_service_100_percent_warning i w st')"
    and "others_untouched i st (update_service_warned_one_week i w st')"
    and "others_untouched i st (update_service_expired_warning i w st')"
    and "others_untouched i st (delete_service i st')"
  using assms
  by (simp_all add: row_update_defs others_untouched_update_row)
     (auto simp: others_untouched_def delete_service_def distinct_map_filter)

lemmas kept_ops = flags_kept_ops others_untouched_ops

lemma kept_sends:
  assumes "flags_kept st st'" and "others_untouched (service_id s) st st'"
  shows "flags_kept st (send_70_percent_warning s st') \<and>
         others_untouched (service_id s) st (send_70_percent_warning s st')"
    and "flags_kept st (send_exhaustion_notification s st') \<and>
         others_untouched (service_id s) st (send_exhaustion_notification s st')"
    and "flags_kept st (send_three_days_expiration_warning s d st') \<and>
         others_untouched (service_id s) st (send_three_days_expiration_warning s d st')"
    and "flags_kept st (send_plan_expiration_notification s st') \<and>
         others_untouched (service_id s) st (send_plan_expiration_notification s st')"
  using assms
  by (simp_all add: send_70_percent_warning_def send_exhaustion_notification_def
      send_three_days_expiration_warning_def send_plan_expiration_notification_def
      get_user_by_id_def kept_ops split: option.splits)

lemma kept_handle:
  assumes "flags_kept st st'" and "others_untouched (service_id s) st st'"
  shows "flags_kept st (handle_traffic_exhausted e s st') \<and>
         others_untouched (service_id s) st (handle_traffic_exhausted e s st')"
    and "flags_kept st (handle_plan_expiration e s st') \<and>
         others_untouched (service_id s) st (handle_plan_expiration e s st')"
    and "flags_kept st (delete_service_for_overage e s st') \<and>
         others_untouched (service_id s) st (delete_service_for_overage e s st')"
    and "flags_kept st (delete_exhausted_service e s st') \<and>
         others_untouched (service_id s) st (delete_exhausted_service e s st')"
    and "flags_kept st (delete_expired_plan_service e s st') \<and>
         others_untouched (service_id s) st (delete_expired_plan_service e s st')"
  using assms
  by (simp_all add: handle_traffic_exhausted_def handle_plan_expiration_def Let_def
      delete_service_for_overage_eq delete_exhausted_service_eq
      delete_expired_plan_service_eq notify_deleted_def snd_delete_from_panel
      get_user_by_id_def kept_ops kept_sends split: option.splits)

lemma kept_overage:
  assumes "flags_kept st st'" and "others_untouched (service_id s) st st'"
  shows "flags_kept st (check_disabled_service_overage e s p u t st') \<and>
         others_untouched (service_id s) st (check_disabled_service_overage e s p u t st')"
    and "flags_kept st (check_expired_service_overage e s p u t st') \<and>
         others_untouched (service_id s) st (check_expired_service_overage e s p u t st')"
  using assms
  by (simp_all add: check_disabled_service_overage_def check_expired_service_overage_def
      kept_handle split: option.splits)

lemma kept_check_plan_expiration:
  assumes "flags_kept st st'" and "others_untouched (service_id s) st st'"
  shows "flags_kept st (check_plan_expiration e s c st') \<and>
         others_untouched (service_id s) st (check_plan_expiration e s c st')"
  using assms
  by (simp add: check_plan_expiration_def Let_def kept_ops kept_sends kept_handle kept_overage
      split: option.splits)

lemma kept_process_client_traffic:
  assumes "flags_kept st st'" and "others_untouched (service_id s) st st'"
  shows "flags_kept st (process_client_traffic e s c st') \<and>
         others_untouched (service_id s) st (process_client_traffic e s c st')"
  using assms
  by (simp add: process_client_traffic_def Let_def kept_ops kept_sends kept_handle kept_overage
      kept_check_plan_expiration)


subsection \<open>A whole pass respects the gates\<close>

lemma foldl_visits:
  assumes vis: "\<And>s st. f s st = st \<or> (\<exists>c. f s st = process_client_traffic e s c st)"
    and "distinct (map service_id (xs @ rest))"
    and "set (xs @ rest) \<subseteq> set (services st)"
  shows "set rest \<subseteq> set (services (foldl (\<lambda>acc s. f s acc) st xs)) \<and>
         gated_step k j st (foldl (\<lambda>acc s. f s acc) st xs) \<and>
         flags_kept st (foldl (\<lambda>acc s. f s acc) st xs) \<and>
         (distinct (map service_id (services st)) \<longrightarrow>
            distinct (map service_id (services (foldl (\<lambda>acc s. f s acc) st xs))))"
  using assms(2,3)
proof (induction xs arbitrary: st)
  case Nil
  then show ?case by simp
next
  case (Cons x xs)
  let ?st1 = "f x st"
  from Cons.prems have x: "x \<in> set (services st)" by simp
  have step: "gated_step k j st ?st1 \<and> flags_kept st ?st1 \<and> others_untouched (service_id x) st ?st1"
    using vis [of x st] x
      gated_step_process_client_traffic [OF x, of k j e]
      kept_process_client_traffic [of st st x e]
    by auto
  have sub: "set (xs @ rest) \<subseteq> set (services ?st1)"
  proof
    fix r assume r: "r \<in> set (xs @ rest)"
    from Cons.prems have "service_id x \<notin> service_id ` set (xs @ rest)"
      by (simp add: image_Un)
    with r have "service_id r \<noteq> service_id x"
      by (metis imageI)
    moreover from r Cons.prems have "r \<in> set (services st)"
      by auto
    ultimately have "r \<in> set (services st)" and "service_id r \<noteq> service_id x"
      by simp_all
    with step show "r \<in> set (services ?st1)"
      by (auto simp: others_untouched_def)
  qed
  from Cons.prems have "distinct (map service_id (xs @ rest))" by simp
  from Cons.IH [OF this sub] step show ?case
    by (auto intro: gated_step_trans flags_kept_trans simp: others_untouched_def)
qed

lemma visit_check_service_traffic:
  "check_service_traffic e s st = st \<or>
   (\<exists>c. check_service_traffic e s st = process_client_traffic e s c st)"
  by (auto simp: check_service_traffic_def split: option.splits)

lemma visit_check_service_traffic_optimized:
  "check_service_traffic_optimized e s a st = st \<or>
   (\<exists>c. check_service_traffic_optimized e s a st = process_client_traffic e s c st)"
  by (auto simp: check_service_traffic_optimized_def Let_def split: option.splits)

lemma check_panel_services_parallel_kept:
  assumes "distinct (map service_id (xs @ rest))"
    and "set (xs @ rest) \<subseteq> set (services st)"
  shows "set rest \<subseteq> set (services (check_panel_services_parallel e p xs st)) \<and>
         gated_step k j st (check_panel_services_parallel e p xs st) \<and>
         flags_kept st (check_panel_services_parallel e p xs st) \<and>
         (distinct (map service_id (services st)) \<longrightarrow>
            distinct (map service_id (services (check_panel_services_parallel e p xs st))))"
  using assms
    foldl_visits [of "check_service_traffic e" e xs rest st k j,
      OF visit_check_service_traffic assms]
    foldl_visits [of "\<lambda>s. check_service_traffic_optimized e s (batch_clients e p)" e xs rest st k j,
      OF visit_check_service_traffic_optimized assms]
  by (simp add: check_panel_services_parallel_def Let_def)

lemma check_panels_kept:
  assumes "distinct (map service_id (concat (map snd groups)))"
    and "set (concat (map snd groups)) \<subseteq> set (services st)"
  shows "gated_step k j st (check_panels e groups st) \<and>
         flags_kept st (check_panels e groups st) \<and>
         (distinct (map service_id (services st)) \<longrightarrow>
            distinct (map service_id (services (check_panels e groups st))))"
  using assms
proof (induction groups arbitrary: st)
  case Nil
  then show ?case by (simp add: check_panels_def)
next
  case (Cons g groups)
  obtain p xs where g: "g = (p, xs)" by (cases g)
  let ?st1 = "check_panel_services_parallel e p xs st"
  from Cons.prems g have d: "distinct (map service_id (xs @ concat (map snd groups)))"
    and s: "set (xs @ concat (map snd groups)) \<subseteq> set (services st)"
    by simp_all
  note one = check_panel_services_parallel_kept [OF d s, of e p k j]
  from d have d': "distinct (map service_id (concat (map snd groups)))" by simp
  from one have s': "set (concat (map snd groups)) \<subseteq> set (services ?st1)" by simp
  have unfold: "check_panels e (g # groups) st = check_panels e groups ?st1"
    by (simp add: check_panels_def g)
  from Cons.IH [OF d' s'] one show ?case
    unfolding unfold by (auto intro: gated_step_trans flags_kept_trans)
qed

lemma mset_append_to_panel:
  "mset (concat (map snd (append_to_panel p s groups))) = add_mset s (mset (concat (map snd groups)))"
  by (induction groups) auto

lemma mset_services_by_panel_aux:
  "mset (concat (map snd
      (foldl (\<lambda>acc s. if panel_id s \<noteq> 0 then append_to_panel (panel_id s) s acc else acc) groups svcs))) =
   mset (concat (map snd groups)) + mset (filter (\<lambda>s. panel_id s \<noteq> 0) svcs)"
  by (induction svcs arbitrary: groups) (simp_all add: mset_append_to_panel)

lemma mset_services_by_panel:
  "mset (concat (map snd (services_by_panel svcs))) = mset (filter (\<lambda>s. panel_id s \<noteq> 0) svcs)"
  unfolding services_by_panel_def using mset_services_by_panel_aux [of "[]" svcs] by simp

lemma services_by_panel_rows:
  assumes "distinct (map service_id svcs)"
  shows "distinct (map service_id (concat (map snd (services_by_panel svcs))))"
    and "set (concat (map snd (services_by_panel svcs))) \<subseteq> set svcs"
proof -
  have "mset (map service_id (concat (map snd (services_by_panel svcs)))) =
        mset (map service_id (filter (\<lambda>s. panel_id s \<noteq> 0) svcs))"
    using mset_services_by_panel [of svcs] by (metis mset_map)
  moreover have "distinct (map service_id (filter (\<lambda>s. panel_id s \<noteq> 0) svcs))"
    using assms by (rule distinct_map_filter)
  ultimately show "distinct (map service_id (concat (map snd (services_by_panel svcs))))"
    by (metis mset_eq_imp_distinct_iff)
  show "set (concat (map snd (services_by_panel svcs))) \<subseteq> set svcs"
    using mset_services_by_panel [of svcs] by (metis filter_is_subset mset_eq_setD)
qed

lemma bulk_update_kept:
  "gated_step k j st (bulk_update_client_status updates st) \<and>
   flags_kept st (bulk_update_client_status updates st) \<and>
   (distinct (map service_id (services st)) \<longrightarrow>
      distinct (map service_id (services (bulk_update_client_status updates st))))"
proof (induction updates arbitrary: st)
  case Nil
  then show ?case by (simp add: bulk_update_client_status_def)
next
  case (Cons u updates)
  obtain i g where u: "u = (i, g)" by (cases u)
  let ?st1 = "update_row i (\<lambda>s. s\<lparr>used_gb := g\<rparr>) st"
  have unfold: "bulk_update_client_status (u # updates) st = bulk_update_client_status updates ?st1"
    by (simp add: bulk_update_client_status_def u)
  have "all_flagged k j st \<Longrightarrow> all_flagged k j ?st1"
    by (simp add: all_flagged_update_row) (simp add: all_flagged_def)
  then have "gated_step k j st ?st1"
    by (simp add: gated_step_quiet)
  then have one: "gated_step k j st ?st1 \<and> flags_kept st ?st1 \<and>
     (distinct (map service_id (services st)) \<longrightarrow> distinct (map service_id (services ?st1)))"
    by (simp add: flags_kept_ops ids_update_row)
  from Cons.IH [of ?st1] one show ?case
    unfolding unfold by (auto intro: gated_step_trans flags_kept_trans)
qed

lemma flush_updates_kept:
  "gated_step k j st (flush_updates e st) \<and>
   flags_kept st (flush_updates e st) \<and>
   (distinct (map service_id (services st)) \<longrightarrow>
      distinct (map service_id (services (flush_updates e st))))"
proof -
  let ?st1 = "st\<lparr>pending_updates := [], bulk_writes := bulk_writes st @ [pending_updates st]\<rparr>"
  have a: "gated_step k j st ?st1 \<and> flags_kept st ?st1"
    by (simp add: gated_step_def sends_gated_def all_flagged_def flags_kept_def) blast
  from a bulk_update_kept [of k j ?st1 "pending_updates st"] show ?thesis
    by (auto simp: flush_updates_def Let_def intro: gated_step_trans flags_kept_trans)
qed

lemma check_all_services_kept:
  assumes "distinct (map service_id (services st))"
  shows "gated_step k j st (check_all_services e st) \<and>
         flags_kept st (check_all_services e st) \<and>
         distinct (map service_id (services (check_all_services e st)))"
proof -
  let ?svcs = "get_all_active_services st"
  let ?st1 = "st\<lparr>pending_updates := []\<rparr>"
  let ?st2 = "check_panels e (services_by_panel ?svcs) ?st1"
  have a: "gated_step k j st ?st1 \<and> flags_kept st ?st1"
    by (simp add: gated_step_def sends_gated_def all_flagged_def flags_kept_def) blast
  from assms have d: "distinct (map service_id ?svcs)"
    by (simp add: get_all_active_services_def distinct_map_filter)
  have sub: "set (concat (map snd (services_by_panel ?svcs))) \<subseteq> set (services ?st1)"
    using services_by_panel_rows(2) [OF d] by (auto simp: get_all_active_services_def)
  note b = check_panels_kept [OF services_by_panel_rows(1) [OF d] sub, of k j e]
  note c = flush_updates_kept [of k j ?st2 e]
  from assms a b c show ?thesis
    by (auto simp: check_all_services_def Let_def intro: gated_step_trans flags_kept_trans)
qed

lemma foldl_deletions_kept:
  assumes "\<And>s st. gated_step k j st (f s st) \<and> flags_kept st (f s st) \<and>
      (distinct (map service_id (services st)) \<longrightarrow> distinct (map service_id (services (f s st))))"
  shows "gated_step k j st (foldl (\<lambda>acc s. f s acc) st xs) \<and>
         flags_kept st (foldl (\<lambda>acc s. f s acc) st xs) \<and>
         (distinct (map service_id (services st)) \<longrightarrow>
            distinct (map service_id (services (foldl (\<lambda>acc s. f s acc) st xs))))"
proof (induction xs arbitrary: st)
  case Nil
  then show ?case by simp
next
  case (Cons x xs)
  from Cons.IH [of "f x st"] assms [of st x] show ?case
    by (auto intro: gated_step_trans flags_kept_trans)
qed

lemma check_for_deletion_kept:
  "gated_step k j st (check_for_deletion e st) \<and>
   flags_kept st (check_for_deletion e st) \<and>
   (distinct (map service_id (services st)) \<longrightarrow>
      distinct (map service_id (services (check_for_deletion e st))))"
proof -
  have one: "gated_step k j st (delete_exhausted_service e s st) \<and>
      flags_kept st (delete_exhausted_service e s st) \<and>
      (distinct (map service_id (services st)) \<longrightarrow>
         distinct (map service_id (services (delete_exhausted_service e s st))))" for s st
    using kept_handle(4) [of st st s e]
    by (simp add: gated_step_delete_service_for_overage others_untouched_def)
  have two: "gated_step k j st (delete_expired_plan_service e s st) \<and>
      flags_kept st (delete_expired_plan_service e s st) \<and>
      (distinct (map service_id (services st)) \<longrightarrow>
         distinct (map service_id (services (delete_expired_plan_service e s st))))" for s st
    using kept_handle(5) [of st st s e]
    by (simp add: gated_step_delete_service_for_overage others_untouched_def)
  let ?st1 = "foldl (\<lambda>acc s. delete_exhausted_service e s acc) st (get_services_for_deletion e st)"
  note a = foldl_deletions_kept [of k j "delete_exhausted_service e" st
      "get_services_for_deletion e st", OF one]
  note b = foldl_deletions_kept [of k j "delete_expired_plan_service e" ?st1
      "get_expired_plan_services_for_deletion e ?st1", OF two]
  from a b show ?thesis
    by (auto simp: check_for_deletion_def Let_def intro: gated_step_trans flags_kept_trans)
qed

lemma run_iteration_kept:
  assumes "distinct (map service_id (services (mon s)))"
  shows "gated_step k j (mon s) (mon (run_iteration it s)) \<and>
         flags_kept (mon s) (mon (run_iteration it s)) \<and>
         distinct (map service_id (services (mon (run_iteration it s))))"
proof -
  let ?c = "check_all_services (check_env it) (mon s)"
  let ?d = "check_for_deletion (deletion_env it) ?c"
  note a = check_all_services_kept [OF assms, of k j "check_env it"]
  note b = check_for_deletion_kept [of k j ?c "deletion_env it"]
  have cases: "mon (run_iteration it s) = mon s \<or> mon (run_iteration it s) = ?c \<or>
      mon (run_iteration it s) = ?d"
    by (simp add: run_iteration_def Let_def split: outcome.splits)
  from a b have "gated_step k j (mon s) ?d \<and> flags_kept (mon s) ?d \<and>
      distinct (map service_id (services ?d))"
    by (auto intro: gated_step_trans flags_kept_trans)
  with a assms cases show ?thesis
    by (elim disjE) simp_all
qed

lemma run_iterations_kept:
  assumes "distinct (map service_id (services (mon s)))"
  shows "gated_step k j (mon s) (mon (run_iterations its s)) \<and>
         flags_kept (mon s) (mon (run_iterations its s)) \<and>
         distinct (map service_id (services (mon (run_iterations its s))))"
  using assms
proof (induction its arbitrary: s)
  case Nil
  then show ?case by (simp add: run_iterations_def)
next
  case (Cons it its)
  note one = run_iteration_kept [OF Cons.prems, of k j it]
  then have "distinct (map service_id (services (mon (run_iteration it s))))" by simp
  from Cons.IH [OF this] one show ?case
    by (auto simp: run_iterations_def intro: gated_step_trans flags_kept_trans)
qed

lemma flag_gate_step: "flag_gate k j st \<Longrightarrow> gated_step k j st st' \<Longrightarrow> flag_gate k j st'"
  by (auto simp: flag_gate_def gated_step_def)


subsection \<open>Flags over the lifetime of a service\<close>

text \<open>
  C2. Over any number of scheduler passes, whatever the panels answer and however each pass
  ends, on a store whose row ids are distinct: no row loses a warning flag that it had; and
  for each of the four flags and each service, at most one notification of the kind the flag
  gates is queued, none is queued once the flag is set (a pass with unchanged inputs after
  the flag is set queues no duplicate), and when one is queued the flag is set. The same
  holds for a single reconciliation pass.
\<close>

theorem warning_flags_gate_one_send:
  assumes "distinct (map service_id (services (mon s)))"
  shows "flags_kept (mon s) (mon (run_iterations its s)) \<and>
         gated_step k i (mon s) (mon (run_iterations its s)) \<and>
         (flag_gate k i (mon s) \<longrightarrow> flag_gate k i (mon (run_iterations its s))) \<and>
         flags_kept (mon s) (check_all_services e (mon s)) \<and>
         gated_step k i (mon s) (check_all_services e (mon s))"
  using run_iterations_kept [OF assms, of k i its] check_all_services_kept [OF assms, of k i e]
  by (auto intro: flag_gate_step)

theorem warning_flags_gate_one_send_witness:
  "distinct (map service_id (services (mon (example_running [example_service])))) \<and>
   flag_gate W70 1 (mon (example_running [example_service])) \<and>
   sends_gated W70 1 (mon (run_iterations
      [example_pass (example_client (10 * 1073741824) (15 * 536870912)),
       example_pass (example_client (10 * 1073741824) (15 * 536870912))]
      (example_running [example_service]))) = 1 \<and>
   flag_gate W70 1 (mon (run_iterations
      [example_pass (example_client (10 * 1073741824) (15 * 536870912)),
       example_pass (example_client (10 * 1073741824) (15 * 536870912))]
      (example_running [example_service]))) \<and>
   flags_kept (mon (example_running [example_service])) (mon (run_iterations
      [example_pass (example_client (10 * 1073741824) (15 * 536870912)),
       example_pass (example_client (10 * 1073741824) (15 * 536870912))]
      (example_running [example_service])))"
proof -
  let ?its = "[example_pass (example_client (10 * 1073741824) (15 * 536870912)),
       example_pass (example_client (10 * 1073741824) (15 * 536870912))]"
  have d: "distinct (map service_id (services (mon (example_running [example_service]))))"
    by (simp add: example_running_def example_store_def)
  have g: "flag_gate W70 1 (mon (example_running [example_service]))"
    by (simp add: example_running_def example_store_def flag_gate_def sends_gated_def)
  have n: "sends_gated W70 1 (mon (run_iterations ?its (example_running [example_service]))) = 1"
    by code_simp
  from warning_flags_gate_one_send [OF d, of ?its W70 1 example_env] d g n
  show ?thesis by simp
qed


subsection \<open>The 70% warning\<close>

lemma check_plan_expiration_not_expired:
  assumes "product_id s = None \<or> product_id s = Some 0 \<or>
           (case expires_at s of None \<Rightarrow> True | Some t \<Rightarrow> now e < t)"
  shows "check_plan_expiration e s c st = st \<or>
         (\<exists>d. check_plan_expiration e s c st =
            update_service_warned_one_week (service_id s) True
              (send_three_days_expiration_warning s d st))"
  using assms by (auto simp: check_plan_expiration_def Let_def split: option.splits)

lemma three_days_part:
  fixes d :: int
  assumes "get_service st (service_id s) = Some s" and "users st (user_id s) = Some chat"
  defines "st' \<equiv> update_service_warned_one_week (service_id s) True
              (send_three_days_expiration_warning s d st)"
  shows "get_service st' (service_id s) = Some (s\<lparr>warned_one_week := True\<rparr>)"
    and "users st' = users st"
    and "message_queue st' = message_queue st @ [(chat, Three_days_warning (service_id s) d)]"
    and "map status (services st') = map status (services st)"
    and "panel_calls st' = panel_calls st"
    and "pending_updates st' = pending_updates st"
  using assms(1,2) unfolding st'_def
  by (simp_all add: update_service_warned_one_week_def get_service_update_row
      send_three_days_expiration_warning_def get_user_by_id_def)
     (simp_all add: update_row_def send_message_safe_def o_def)

lemma get_service_SomeD:
  "get_service st i = Some r \<Longrightarrow> service_id r = i \<and> r \<in> set (services st)"
  by (auto simp: get_service_def find_Some_iff)

lemma warning_70_part:
  fixes g :: rat
  assumes "get_service st (service_id s) = Some s'" and "\<not> warned_70_percent s'"
    and "users st (user_id s) = Some chat"
  defines "st' \<equiv> update_service_70_percent_warning (service_id s) True
              (send_70_percent_warning s (stage_update (service_id s) g st))"
  shows "message_queue st' = message_queue st @ [(chat, Warning_70_percent (service_id s))]"
    and "all_flagged W70 (service_id s) st'"
    and "get_service_warning_flags st' (service_id s) warned_70_percent"
    and "map status (services st') = map status (services st)"
    and "panel_calls st' = panel_calls st"
    and "pending_updates st' = pending_updates st @ [(service_id s, g)]"
  using assms(1-3) get_service_SomeD [OF assms(1)] unfolding st'_def
  by (simp_all add: send_70_percent_warning_def get_user_by_id_def stage_update_def
      get_service_warning_flags_def get_service_def)
     (simp_all add: update_service_70_percent_warning_def update_row_def send_message_safe_def
      o_def find_update_row [simplified])


text \<open>
  C4, as the claim states it, fails in two ways. With 75% of 10 GB used, an active service
  and the flag not set: when the owner of the service is not in the store no warning is
  queued (the flag is set all the same); and a plan service that is past its expiry gets the
  warning and is disabled in the same evaluation.
\<close>

theorem warning_70_counterexample:
  "usage_percentage (example_client (10 * 1073741824) (15 * 536870912)) = 75 \<and>
   status example_service = ''active'' \<and>
   \<not> warned_70_percent example_service \<and>
   message_queue (process_client_traffic example_env (example_service\<lparr>user_id := 8\<rparr>)
      (example_client (10 * 1073741824) (15 * 536870912))
      (example_store [example_service\<lparr>user_id := 8\<rparr>])) = [] \<and>
   message_queue (process_client_traffic example_env
      (example_service\<lparr>product_id := Some 5, expires_at := Some 999999\<rparr>)
      (example_client (10 * 1073741824) (15 * 536870912))
      (example_store [example_service\<lparr>product_id := Some 5, expires_at := Some 999999\<rparr>])) =
     [(700, Plan_expired 1), (700, Warning_70_percent 1)] \<and>
   map status (services (process_client_traffic example_env
      (example_service\<lparr>product_id := Some 5, expires_at := Some 999999\<rparr>)
      (example_client (10 * 1073741824) (15 * 536870912))
      (example_store [example_service\<lparr>product_id := Some 5, expires_at := Some 999999\<rparr>]))) =
     [''disabled'']"
  by code_simp

text \<open>
  C4, amended. For a service whose snapshot is its row in the store, whose owner is in the
  store, which is not a plan past its expiry, with a usage of at least 70 and less than 100
  percent of a positive total, a status other than disabled and the flag not set: one
  evaluation queues exactly one 70% warning, addressed to the owner, sets the flag, changes
  no status and calls no panel. The service of the scenario (10 GB, 7.5 GB used) is an
  instance.
\<close>

theorem warning_70_sent_once:
  assumes row: "get_service st (service_id s) = Some s"
    and owner: "users st (user_id s) = Some chat"
    and not_expired: "product_id s = None \<or> product_id s = Some 0 \<or>
           (case expires_at s of None \<Rightarrow> True | Some t \<Rightarrow> now e < t)"
    and pct: "70 \<le> usage_percentage c" "usage_percentage c < 100"
    and active: "status s \<noteq> ''disabled''"
    and unwarned: "\<not> warned_70_percent s"
  shows "filter (\<lambda>(ch, m). gated_by W70 (service_id s) m)
           (message_queue (process_client_traffic e s c st)) =
         filter (\<lambda>(ch, m). gated_by W70 (service_id s) m) (message_queue st) @
           [(chat, Warning_70_percent (service_id s))] \<and>
         sends_gated W70 (service_id s) (process_client_traffic e s c st) =
           sends_gated W70 (service_id s) st + 1 \<and>
         get_service_warning_flags (process_client_traffic e s c st) (service_id s)
           warned_70_percent \<and>
         all_flagged W70 (service_id s) (process_client_traffic e s c st) \<and>
         map status (services (process_client_traffic e s c st)) = map status (services st) \<and>
         panel_calls (process_client_traffic e s c st) = panel_calls st"
proof -
  define st1 where "st1 = (if product_id s \<noteq> None then check_plan_expiration e s c st else st)"
  from pct(1) have total: "0 < total_traffic_bytes c"
    by (simp add: usage_percentage_def split: if_splits)
  have eq: "process_client_traffic e s c st =
      update_service_70_percent_warning (service_id s) True
        (send_70_percent_warning s
           (stage_update (service_id s) (to_gb (used_traffic_bytes c)) st1))"
    using total pct active unwarned
    by (simp add: process_client_traffic_def Let_def st1_def)
  have st1: "\<exists>s'. get_service st1 (service_id s) = Some s' \<and> \<not> warned_70_percent s' \<and>
      users st1 = users st \<and> map status (services st1) = map status (services st) \<and>
      panel_calls st1 = panel_calls st \<and>
      filter (\<lambda>(ch, m). gated_by W70 (service_id s) m) (message_queue st1) =
        filter (\<lambda>(ch, m). gated_by W70 (service_id s) m) (message_queue st)"
    using check_plan_expiration_not_expired [OF not_expired, of c st]
      three_days_part [OF row owner] row unwarned
    by (auto simp: st1_def)
  then obtain s' where s': "get_service st1 (service_id s) = Some s'" "\<not> warned_70_percent s'"
    and frame: "users st1 = users st" "map status (services st1) = map status (services st)"
      "panel_calls st1 = panel_calls st"
      "filter (\<lambda>(ch, m). gated_by W70 (service_id s) m) (message_queue st1) =
        filter (\<lambda>(ch, m). gated_by W70 (service_id s) m) (message_queue st)"
    by blast
  from owner frame(1) have owner1: "users st1 (user_id s) = Some chat"
    by simp
  note part = warning_70_part [OF s' owner1, of "to_gb (used_traffic_bytes c)"]
  show ?thesis
    unfolding eq using part frame by (simp add: sends_gated_def)
qed

theorem warning_70_sent_once_witness:
  "get_service (example_store [example_service]) (service_id example_service) =
     Some example_service \<and>
   users (example_store [example_service]) (user_id example_service) = Some 700 \<and>
   product_id example_service = None \<and>
   usage_percentage (example_client (10 * 1073741824) (15 * 536870912)) = 75 \<and>
   status example_service = ''active'' \<and>
   \<not> warned_70_percent example_service \<and>
   message_queue (process_client_traffic example_env example_service
      (example_client (10 * 1073741824) (15 * 536870912))
      (example_store [example_service])) = [(700, Warning_70_percent 1)] \<and>
   sends_gated W70 1 (process_client_traffic example_env example_service
      (example_client (10 * 1073741824) (15 * 536870912))
      (example_store [example_service])) = 1 \<and>
   get_service_warning_flags (process_client_traffic example_env example_service
      (example_client (10 * 1073741824) (15 * 536870912))
      (example_store [example_service])) 1 warned_70_percent \<and>
   map status (services (process_client_traffic example_env example_service
      (example_client (10 * 1073741824) (15 * 536870912))
      (example_store [example_service]))) = [''active'']"
proof -
  let ?c = "example_client (10 * 1073741824) (15 * 536870912)"
  let ?st = "example_store [example_service]"
  have row: "get_service ?st (service_id example_service) = Some example_service"
    by (simp add: get_service_def example_store_def)
  have owner: "users ?st (user_id example_service) = Some 700"
    by (simp add: example_store_def example_service_def)
  have plan: "product_id example_service = None"
    by (simp add: example_service_def)
  have pct: "usage_percentage ?c = 75"
    by (simp add: usage_percentage_def total_traffic_bytes_def used_traffic_bytes_def
        example_client_def get_or_0_def float_or_0_def or_0_def py_or_def)
  have active: "status example_service = ''active''" and unwarned: "\<not> warned_70_percent example_service"
    by (simp_all add: example_service_def)
  have queue: "message_queue (process_client_traffic example_env example_service ?c ?st) =
      [(700, Warning_70_percent 1)]"
    by code_simp
  have sid: "service_id example_service = 1"
    by (simp add: example_service_def)
  have "sends_gated W70 (service_id example_service) ?st = 0"
    by (simp add: sends_gated_def example_store_def)
  moreover have "map status (services ?st) = [''active'']"
    by (simp add: example_store_def example_service_def)
  moreover note warning_70_sent_once [of ?st example_service 700 example_env ?c, OF row owner]
  ultimately show ?thesis
    using row owner plan pct active unwarned queue sid by simp
qed


subsection \<open>Exhaustion\<close>

lemma users_composites [simp]:
  "users (send_70_percent_warning s st) = users st"
  "users (send_exhaustion_notification s st) = users st"
  "users (send_three_days_expiration_warning s d st) = users st"
  "users (send_plan_expiration_notification s st) = users st"
  "users (handle_plan_expiration e s st) = users st"
  "users (handle_traffic_exhausted e s st) = users st"
  "users (delete_service_for_overage e s st) = users st"
  "users (check_expired_service_overage e s p u t st) = users st"
  "users (check_disabled_service_overage e s p u t st) = users st"
  by (simp_all add: send_defs row_update_defs handle_plan_expiration_def
      handle_traffic_exhausted_def delete_service_for_overage_eq notify_deleted_def
      snd_delete_from_panel check_expired_service_overage_def
      check_disabled_service_overage_def get_user_by_id_def Let_def split: option.splits)

lemma users_check_plan_expiration [simp]:
  "users (check_plan_expiration e s c st) = users st"
  by (simp add: check_plan_expiration_def Let_def row_update_defs split: option.splits)

lemma get_service_updates:
  "get_service (update_service_status i v st) j =
     map_option (\<lambda>s. if service_id s = i then s\<lparr>status := v\<rparr> else s) (get_service st j)"
  "get_service (update_service_exhaustion_time e i st) j =
     map_option (\<lambda>s. if service_id s = i then s\<lparr>exhausted_at := Some (now e)\<rparr> else s)
       (get_service st j)"
  "get_service (update_service_expiration_time e i st) j =
     map_option (\<lambda>s. if service_id s = i then s\<lparr>expired_at := Some (now e)\<rparr> else s)
       (get_service st j)"
  "get_service (update_service_70_percent_warning i w st) j =
     map_option (\<lambda>s. if service_id s = i then s\<lparr>warned_70_percent := w\<rparr> else s)
       (get_service st j)"
  "get_service (update_service_100_percent_warning i w st) j =
     map_option (\<lambda>s. if service_id s = i then s\<lparr>warned_100_percent := w\<rparr> else s)
       (get_service st j)"
  "get_service (update_service_warned_one_week i w st) j =
     map_option (\<lambda>s. if service_id s = i then s\<lparr>warned_one_week := w\<rparr> else s)
       (get_service st j)"
  "get_service (update_service_expired_warning i w st) j =
     map_option (\<lambda>s. if service_id s = i then s\<lparr>warned_expired := w\<rparr> else s)
       (get_service st j)"
  by (simp_all add: row_update_defs get_service_update_row)

text \<open>
  Before the traffic path of a service that is not disabled reaches the exhaustion branch,
  the expiry path has kept the row, its exhaustion flag, and the count of exhaustion
  notifications.
\<close>

lemma exhaustion_flag_frame [simp]:
  "map_option warned_100_percent (get_service (update_service_status i v st) j) =
     map_option warned_100_percent (get_service st j)"
  "map_option warned_100_percent (get_service (update_service_exhaustion_time e i st) j) =
     map_option warned_100_percent (get_service st j)"
  "map_option warned_100_percent (get_service (update_service_expiration_time e i st) j) =
     map_option warned_100_percent (get_service st j)"
  "map_option warned_100_percent (get_service (update_service_70_percent_warning i w st) j) =
     map_option warned_100_percent (get_service st j)"
  "map_option warned_100_percent (get_service (update_service_warned_one_week i w st) j) =
     map_option warned_100_percent (get_service st j)"
  "map_option warned_100_percent (get_service (update_service_expired_warning i w st) j) =
     map_option warned_100_percent (get_service st j)"
  by (cases "get_service st j"; simp add: get_service_updates)+

lemma three_days_keeps_exhaustion:
  "map_option warned_100_percent (get_service (send_three_days_expiration_warning s d st) j) =
   map_option warned_100_percent (get_service st j)"
  "sends_gated W100 i (send_three_days_expiration_warning s d st) = sends_gated W100 i st"
  by (simp_all add: send_three_days_expiration_warning_def get_user_by_id_def
      split: option.splits)

lemma handle_plan_expiration_keeps_exhaustion:
  "map_option warned_100_percent (get_service (handle_plan_expiration e s st) j) =
   map_option warned_100_percent (get_service st j)"
  "sends_gated W100 i (handle_plan_expiration e s st) = sends_gated W100 i st"
  by (simp_all add: handle_plan_expiration_def Let_def send_plan_expiration_notification_def
      get_user_by_id_def split: option.splits)

lemma check_plan_expiration_keeps_exhaustion:
  assumes "status s \<noteq> ''disabled''"
  shows "map_option warned_100_percent (get_service (check_plan_expiration e s c st) j) =
         map_option warned_100_percent (get_service st j)"
    and "sends_gated W100 i (check_plan_expiration e s c st) = sends_gated W100 i st"
  using assms
  by (simp_all add: check_plan_expiration_def Let_def three_days_keeps_exhaustion
      handle_plan_expiration_keeps_exhaustion split: option.splits)


lemma store_flag_100:
  "get_service_warning_flags st i warned_100_percent \<longleftrightarrow>
     map_option warned_100_percent (get_service st i) = Some True"
  by (cases "get_service st i") (simp_all add: get_service_warning_flags_def)

lemma handle_traffic_exhausted_effect:
  assumes row: "map_option warned_100_percent (get_service st (service_id s)) = Some w"
    and active: "status s \<noteq> ''disabled''"
    and panel: "panel_ready e s" "disable_ok e (panel_id s) (inbound_id s) (client_uuid s)"
  shows "\<forall>q\<in>set (services (handle_traffic_exhausted e s st)).
            service_id q = service_id s \<longrightarrow>
            status q = ''disabled'' \<and> exhausted_at q = Some (now e)"
    and "service_id s \<in> row_ids (handle_traffic_exhausted e s st)"
    and "panel_calls (handle_traffic_exhausted e s st) =
           panel_calls st @ [Disable_client (panel_id s) (inbound_id s) (client_uuid s)]"
    and "sends_gated W100 (service_id s) (handle_traffic_exhausted e s st) =
           sends_gated W100 (service_id s) st +
           (if users st (user_id s) \<noteq> None \<and> \<not> w then 1 else 0)"
    and "users st (user_id s) \<noteq> None \<longrightarrow>
           get_service_warning_flags (handle_traffic_exhausted e s st) (service_id s)
             warned_100_percent"
proof -
  let ?st3 = "update_service_exhaustion_time e (service_id s)
     (update_service_status (service_id s) ''disabled''
        (panel_call (Disable_client (panel_id s) (inbound_id s) (client_uuid s)) st))"
  have eq: "handle_traffic_exhausted e s st = send_exhaustion_notification s ?st3"
    using active panel by (simp add: handle_traffic_exhausted_def Let_def)
  from row obtain s0 where s0: "get_service st (service_id s) = Some s0"
    by (cases "get_service st (service_id s)") auto
  from get_service_SomeD [OF s0] have inrow: "service_id s \<in> row_ids st"
    unfolding row_ids_def by (metis imageI)
  have "map_option warned_100_percent (get_service ?st3 (service_id s)) = Some w"
    using row by (simp only: exhaustion_flag_frame get_service_frame)
  then have flag: "get_service_warning_flags ?st3 (service_id s) warned_100_percent = w"
    by (simp add: store_flag_100 del: map_option_eq_Some)
  have rows3: "\<forall>q\<in>set (services ?st3). service_id q = service_id s \<longrightarrow>
      status q = ''disabled'' \<and> exhausted_at q = Some (now e)"
    by (auto simp: row_update_defs update_row_def panel_call_def)
  have users3: "users ?st3 = users st"
    by (simp add: row_update_defs)
  show "\<forall>q\<in>set (services (handle_traffic_exhausted e s st)).
            service_id q = service_id s \<longrightarrow>
            status q = ''disabled'' \<and> exhausted_at q = Some (now e)"
  proof (cases "users st (user_id s) \<noteq> None \<and> \<not> w")
    case True
    then have "handle_traffic_exhausted e s st =
        update_service_100_percent_warning (service_id s) True
          (send_message_safe (the (users st (user_id s))) (Traffic_exhausted (service_id s)) ?st3)"
      unfolding eq using flag users3
      by (auto simp: send_exhaustion_notification_def get_user_by_id_def)
    then show ?thesis
      using rows3
      by (auto simp: update_service_100_percent_warning_def update_row_def send_message_safe_def)
  next
    case False
    then have "handle_traffic_exhausted e s st = ?st3"
      unfolding eq using flag users3
      by (auto simp: send_exhaustion_notification_def get_user_by_id_def split: option.splits)
    then show ?thesis
      using rows3 by simp
  qed
  show "service_id s \<in> row_ids (handle_traffic_exhausted e s st)"
    using inrow by simp
  show "panel_calls (handle_traffic_exhausted e s st) =
           panel_calls st @ [Disable_client (panel_id s) (inbound_id s) (client_uuid s)]"
    unfolding eq
    by (simp add: send_exhaustion_notification_def get_user_by_id_def row_update_defs
        update_row_def send_message_safe_def panel_call_def split: option.splits)
  show "sends_gated W100 (service_id s) (handle_traffic_exhausted e s st) =
           sends_gated W100 (service_id s) st +
           (if users st (user_id s) \<noteq> None \<and> \<not> w then 1 else 0)"
    unfolding eq using flag users3
    by (auto simp: send_exhaustion_notification_def get_user_by_id_def split: option.splits)
  show "users st (user_id s) \<noteq> None \<longrightarrow>
           get_service_warning_flags (handle_traffic_exhausted e s st) (service_id s)
             warned_100_percent"
    unfolding eq using flag users3 s0 get_service_SomeD [OF s0]
    by (auto simp: send_exhaustion_notification_def get_user_by_id_def store_flag_100
        get_service_updates split: option.splits)
qed


lemma all_flagged_if_store_flag:
  assumes "distinct (map service_id (services st))"
    and "get_service_warning_flags st i (flag_of k)"
  shows "all_flagged k i st"
proof -
  from assms(2) obtain r where r: "get_service st i = Some r" "flag_of k r"
    by (cases "get_service st i") (auto simp: get_service_warning_flags_def)
  from get_service_SomeD [OF r(1)] have rin: "r \<in> set (services st)" "service_id r = i"
    by simp_all
  have "q = r" if "q \<in> set (services st)" "service_id q = i" for q
    using assms(1) that rin by (auto simp: distinct_map inj_on_def)
  with r(2) show ?thesis
    by (auto simp: all_flagged_def)
qed

text \<open>
  C1, as the claim states it, fails. With 105% of 10 GB used on an active service: when
  the panel cannot be logged into, the service stays active, gets no exhaustion anchor and
  no notification is queued; and when the owner is not in the store the service is disabled
  and no notification is queued.
\<close>

theorem exhaustion_counterexample:
  "0 < total_traffic_bytes (example_client (10 * 1073741824) (21 * 536870912)) \<and>
   usage_percentage (example_client (10 * 1073741824) (21 * 536870912)) = 105 \<and>
   status example_service = ''active'' \<and>
   map status (services (process_client_traffic (example_env\<lparr>login := (\<lambda>p. Fails)\<rparr>)
      example_service (example_client (10 * 1073741824) (21 * 536870912))
      (example_store [example_service]))) = [''active''] \<and>
   map exhausted_at (services (process_client_traffic (example_env\<lparr>login := (\<lambda>p. Fails)\<rparr>)
      example_service (example_client (10 * 1073741824) (21 * 536870912))
      (example_store [example_service]))) = [None] \<and>
   message_queue (process_client_traffic (example_env\<lparr>login := (\<lambda>p. Fails)\<rparr>)
      example_service (example_client (10 * 1073741824) (21 * 536870912))
      (example_store [example_service])) = [] \<and>
   map status (services (process_client_traffic example_env (example_service\<lparr>user_id := 8\<rparr>)
      (example_client (10 * 1073741824) (21 * 536870912))
      (example_store [example_service\<lparr>user_id := 8\<rparr>]))) = [''disabled''] \<and>
   message_queue (process_client_traffic example_env (example_service\<lparr>user_id := 8\<rparr>)
      (example_client (10 * 1073741824) (21 * 536870912))
      (example_store [example_service\<lparr>user_id := 8\<rparr>])) = []"
  by code_simp

text \<open>
  C1, amended. For a service whose snapshot is its row in the store, with a positive total,
  a usage of at least 100 percent and a status other than disabled, when the panel can be
  reached and \<^verbatim>\<open>disable_client\<close> succeeds: after the evaluation every row of the service
  has status disabled and the exhaustion anchor set to the time of the evaluation. An
  exhaustion notification is queued exactly when the owner is in the store and the exhaustion
  flag was not set, and with an owner the flag is set afterwards. The evaluation respects
  the gate of the flag, and on a store with distinct row ids so does everything that follows:
  over that evaluation and any number of later scheduler passes at most one exhaustion
  notification is queued, and with an owner none after the evaluation.
\<close>

theorem exhaustion_disables_and_notifies_once:
  assumes row: "get_service st (service_id s) = Some s"
    and total: "0 < total_traffic_bytes c"
    and pct: "100 \<le> usage_percentage c"
    and active: "status s \<noteq> ''disabled''"
    and panel: "panel_ready e s" "disable_ok e (panel_id s) (inbound_id s) (client_uuid s)"
  shows "(\<forall>q\<in>set (services (process_client_traffic e s c st)).
            service_id q = service_id s \<longrightarrow>
            status q = ''disabled'' \<and> exhausted_at q = Some (now e)) \<and>
         service_id s \<in> row_ids (process_client_traffic e s c st) \<and>
         sends_gated W100 (service_id s) (process_client_traffic e s c st) =
           sends_gated W100 (service_id s) st +
           (if users st (user_id s) \<noteq> None \<and> \<not> warned_100_percent s then 1 else 0) \<and>
         (users st (user_id s) \<noteq> None \<longrightarrow>
            get_service_warning_flags (process_client_traffic e s c st) (service_id s)
              warned_100_percent) \<and>
         gated_step W100 (service_id s) st (process_client_traffic e s c st) \<and>
         (distinct (map service_id (services st)) \<longrightarrow>
            (\<forall>its sch. mon sch = process_client_traffic e s c st \<longrightarrow>
               sends_gated W100 (service_id s) (mon (run_iterations its sch)) \<le>
                 sends_gated W100 (service_id s) st + 1 \<and>
               (users st (user_id s) \<noteq> None \<longrightarrow>
                  sends_gated W100 (service_id s) (mon (run_iterations its sch)) =
                  sends_gated W100 (service_id s) (process_client_traffic e s c st))))"
proof -
  define st1 where "st1 = (if product_id s \<noteq> None then check_plan_expiration e s c st else st)"
  define st2 where "st2 = stage_update (service_id s) (to_gb (used_traffic_bytes c)) st1"
  let ?r = "process_client_traffic e s c st"
  have eq: "?r = handle_traffic_exhausted e s st2"
    using total pct active by (simp add: process_client_traffic_def Let_def st1_def st2_def)
  have flag1: "map_option warned_100_percent (get_service st1 (service_id s)) =
      Some (warned_100_percent s)"
    unfolding st1_def using row check_plan_expiration_keeps_exhaustion(1) [OF active]
    by (simp del: map_option_eq_Some)
  have flag2: "map_option warned_100_percent (get_service st2 (service_id s)) =
      Some (warned_100_percent s)"
    unfolding st2_def using flag1 by (simp del: map_option_eq_Some)
  have users2: "users st2 = users st"
    by (simp add: st2_def st1_def)
  have sends2: "sends_gated W100 (service_id s) st2 = sends_gated W100 (service_id s) st"
    unfolding st2_def st1_def using check_plan_expiration_keeps_exhaustion(2) [OF active]
    by simp
  note eff = handle_traffic_exhausted_effect [OF flag2 active panel]
  from get_service_SomeD [OF row] have sin: "s \<in> set (services st)"
    by simp
  note step = gated_step_process_client_traffic [OF sin, of W100 "service_id s" e c]
  have later: "sends_gated W100 (service_id s) (mon (run_iterations its sch)) \<le>
        sends_gated W100 (service_id s) st + 1 \<and>
      (users st (user_id s) \<noteq> None \<longrightarrow>
        sends_gated W100 (service_id s) (mon (run_iterations its sch)) =
        sends_gated W100 (service_id s) ?r)"
    if d: "distinct (map service_id (services st))" and m: "mon sch = ?r" for its sch
  proof -
    from d kept_process_client_traffic [of st st s e c]
    have dr: "distinct (map service_id (services (mon sch)))"
      by (simp add: m others_untouched_def)
    note run = run_iterations_kept [OF dr, of W100 "service_id s" its]
    from step run have "gated_step W100 (service_id s) st (mon (run_iterations its sch))"
      unfolding m by (blast intro: gated_step_trans)
    then have a: "sends_gated W100 (service_id s) (mon (run_iterations its sch)) \<le>
        sends_gated W100 (service_id s) st + 1"
      by (simp add: gated_step_def)
    have b: "sends_gated W100 (service_id s) (mon (run_iterations its sch)) =
        sends_gated W100 (service_id s) ?r" if "users st (user_id s) \<noteq> None"
    proof -
      from that eff(5) users2 have "get_service_warning_flags ?r (service_id s) (flag_of W100)"
        unfolding eq by simp
      with dr have "all_flagged W100 (service_id s) ?r"
        unfolding m by (rule all_flagged_if_store_flag)
      with run show ?thesis
        unfolding m by (simp add: gated_step_def)
    qed
    from a b show ?thesis by blast
  qed
  from eff users2 sends2 step later show ?thesis
    unfolding eq [symmetric] by (simp add: eq)
qed


theorem exhaustion_disables_and_notifies_once_witness:
  "get_service (example_store [example_service]) (service_id example_service) =
     Some example_service \<and>
   0 < total_traffic_bytes (example_client (10 * 1073741824) (21 * 536870912)) \<and>
   100 \<le> usage_percentage (example_client (10 * 1073741824) (21 * 536870912)) \<and>
   status example_service = ''active'' \<and>
   panel_ready example_env example_service \<and>
   disable_ok example_env (panel_id example_service) (inbound_id example_service)
     (client_uuid example_service) \<and>
   distinct (map service_id (services (example_store [example_service]))) \<and>
   map status (services (process_client_traffic example_env example_service
      (example_client (10 * 1073741824) (21 * 536870912))
      (example_store [example_service]))) = [''disabled''] \<and>
   map exhausted_at (services (process_client_traffic example_env example_service
      (example_client (10 * 1073741824) (21 * 536870912))
      (example_store [example_service]))) = [Some 1000000] \<and>
   message_queue (process_client_traffic example_env example_service
      (example_client (10 * 1073741824) (21 * 536870912))
      (example_store [example_service])) = [(700, Traffic_exhausted 1)] \<and>
   sends_gated W100 1 (mon (run_iterations
      [example_pass (example_client (10 * 1073741824) (21 * 536870912)),
       example_pass (example_client (10 * 1073741824) (21 * 536870912))]
      \<lparr>monitoring = True, sleeps = [],
        mon = process_client_traffic example_env example_service
          (example_client (10 * 1073741824) (21 * 536870912))
          (example_store [example_service])\<rparr>)) = 1"
proof -
  let ?c = "example_client (10 * 1073741824) (21 * 536870912)"
  let ?st = "example_store [example_service]"
  let ?r = "process_client_traffic example_env example_service ?c ?st"
  let ?sch = "\<lparr>monitoring = True, sleeps = [], mon = ?r\<rparr>"
  have row: "get_service ?st (service_id example_service) = Some example_service"
    by (simp add: get_service_def example_store_def)
  have total: "0 < total_traffic_bytes ?c"
    by (simp add: total_traffic_bytes_def example_client_def get_or_0_def float_or_0_def or_0_def py_or_def)
  have "usage_percentage ?c = 105"
    by (simp add: usage_percentage_def total_traffic_bytes_def used_traffic_bytes_def
        example_client_def get_or_0_def float_or_0_def or_0_def py_or_def)
  then have pct: "100 \<le> usage_percentage ?c"
    by simp
  have active: "status example_service \<noteq> ''disabled''"
    and active': "status example_service = ''active''"
    by (simp_all add: example_service_def)
  have panel: "panel_ready example_env example_service"
    "disable_ok example_env (panel_id example_service) (inbound_id example_service)
       (client_uuid example_service)"
    by (simp_all add: panel_ready_def login_ok_def disable_ok_def example_env_def)
  have d: "distinct (map service_id (services ?st))"
    by (simp add: example_store_def)
  have owner: "users ?st (user_id example_service) \<noteq> None"
    by (simp add: example_store_def example_service_def)
  have sid: "service_id example_service = 1"
    by (simp add: example_service_def)
  have status: "map status (services ?r) = [''disabled'']"
    and anchor: "map exhausted_at (services ?r) = [Some 1000000]"
    and queue: "message_queue ?r = [(700, Traffic_exhausted 1)]"
    by code_simp+
  then have one: "sends_gated W100 1 ?r = 1"
    by (simp add: sends_gated_def)
  have m: "mon ?sch = ?r"
    by simp
  from exhaustion_disables_and_notifies_once [OF row total pct active panel] d owner m
  have "sends_gated W100 (service_id example_service) (mon (run_iterations
      [example_pass ?c, example_pass ?c] ?sch)) =
      sends_gated W100 (service_id example_service) ?r"
    by blast
  with one sid have later: "sends_gated W100 1 (mon (run_iterations
      [example_pass ?c, example_pass ?c] ?sch)) = 1"
    by simp
  from row total pct active' panel d status anchor queue later show ?thesis
    by simp
qed


subsection \<open>Overage during the grace period\<close>

lemma delete_service_for_overage_effect:
  assumes "\<not> delete_aborts e s"
  shows "service_id s \<notin> row_ids (delete_service_for_overage e s st)"
    and "services (delete_service_for_overage e s st) =
           filter (\<lambda>r. service_id r \<noteq> service_id s) (services st)"
    and "panel_calls (delete_service_for_overage e s st) =
           panel_calls st @
           (if panel_ready e s then [Delete_client (panel_id s) (inbound_id s) (client_uuid s)]
            else [])"
    and "bot_sent (delete_service_for_overage e s st) =
           bot_sent st @
           (case users st (user_id s) of None \<Rightarrow> []
            | Some chat \<Rightarrow> [(chat, Deleted_for_overage (service_id s))])"
  using assms
  by (auto simp: delete_service_for_overage_eq notify_deleted_def snd_delete_from_panel
      delete_service_def panel_call_def bot_send_message_def get_user_by_id_def row_ids_def
      split: option.splits)

text \<open>
  Where the two paths hand over to the overage check: the traffic path for a disabled volume
  service at 100 percent or more, with the figures of the evaluation; the expiry check for
  a plan past its expiry that is disabled with an anchor, with the figures it resolves
  itself.
\<close>

lemma traffic_path_overage:
  assumes "product_id s = None" "status s = ''disabled''" "0 < total_traffic_bytes c"
    and "100 \<le> usage_percentage c"
  shows "process_client_traffic e s c st =
     check_disabled_service_overage e s (usage_percentage c)
       (to_gb (used_traffic_bytes c)) (to_gb (total_traffic_bytes c))
       (stage_update (service_id s) (to_gb (used_traffic_bytes c)) st)"
  using assms by (simp add: process_client_traffic_def Let_def)

lemma expiry_path_overage:
  assumes "product_id s = Some pid" "pid \<noteq> 0" "expires_at s = Some x" "x \<le> now e"
    and "status s = ''disabled''" "expired_at s \<noteq> None"
    and "expiry_total c = Some total_b" "0 < total_b" "get_or_0 (used_traffic c) = Some used_b"
  shows "check_plan_expiration e s c st =
     check_expired_service_overage e s (of_int used_b / of_int total_b * 100)
       (to_gb (of_int used_b)) (to_gb (of_int total_b)) st"
proof -
  have "x - now e \<le> 0" using assms(4) by simp
  then have "(x - now e) div 86400 \<le> 0" by (rule div_nonpos_pos_le0) simp
  then have "\<not> 0 < (x - now e) div 86400" by simp
  with assms show ?thesis by (simp add: check_plan_expiration_def Let_def)
qed

text \<open>
  C3, as the claim states it, fails. A disabled service of 100 GB, exhausted an hour ago,
  that has used 10000 bytes less than 101 GB is below 110 percent and less than 1 GB over
  its total in bytes, and is deleted all the same: the overage is taken from the figures
  rounded to four decimals of a GB. And on a breach at 120 percent with a panel whose
  \<^verbatim>\<open>login\<close> returns \<^verbatim>\<open>False\<close>, the row is deleted and the remote client is not.
\<close>

theorem overage_counterexample:
  "usage_percentage (example_client (100 * 1073741824) (101 * 1073741824 - 10000)) < 110 \<and>
   (used_traffic_bytes (example_client (100 * 1073741824) (101 * 1073741824 - 10000)) -
    total_traffic_bytes (example_client (100 * 1073741824) (101 * 1073741824 - 10000))) / GB < 1 \<and>
   services (process_client_traffic example_env exhausted_service
      (example_client (100 * 1073741824) (101 * 1073741824 - 10000))
      (example_store [exhausted_service])) = [] \<and>
   services (process_client_traffic (example_env\<lparr>login := (\<lambda>p. Fails)\<rparr>) exhausted_service
      (example_client (10 * 1073741824) (12 * 1073741824))
      (example_store [exhausted_service])) = [] \<and>
   panel_calls (process_client_traffic (example_env\<lparr>login := (\<lambda>p. Fails)\<rparr>) exhausted_service
      (example_client (10 * 1073741824) (12 * 1073741824))
      (example_store [exhausted_service])) = []"
proof -
  let ?c = "example_client 107374182400 108447914224"
  let ?d = "example_client 10737418240 12884901888"
  let ?e = "example_env\<lparr>login := (\<lambda>p. Fails)\<rparr>"
  let ?st = "example_store [exhausted_service]"
  have s: "product_id exhausted_service = None" "status exhausted_service = ''disabled''"
    "service_id exhausted_service = 1" "exhausted_at exhausted_service = Some 996400"
    by (simp_all add: exhausted_service_def example_service_def)
  have tc: "total_traffic_bytes ?c = 107374182400" and uc: "used_traffic_bytes ?c = 108447914224"
    and td: "total_traffic_bytes ?d = 10737418240" and ud: "used_traffic_bytes ?d = 12884901888"
    by (simp_all add: total_traffic_bytes_def used_traffic_bytes_def example_client_def
        get_or_0_def float_or_0_def)
  have pc: "100 \<le> usage_percentage ?c" "usage_percentage ?c < 110"
    and pd: "usage_percentage ?d = 120"
    by (simp_all add: usage_percentage_def tc uc td ud)
  have g: "to_gb 107374182400 = 100"
    using to_gb_GB [of 100] by (simp add: GB_def)
  have ov: "overage_gb 101 100 = 1"
    using overage_gb_whole [of 100 101] by simp
  have "process_client_traffic example_env exhausted_service ?c ?st =
      check_disabled_service_overage example_env exhausted_service (usage_percentage ?c) 101 100
        (stage_update 1 101 ?st)"
    using traffic_path_overage [of exhausted_service ?c example_env ?st] s pc
    by (simp add: tc uc g to_gb_101)
  also have "\<dots> = delete_service_for_overage example_env exhausted_service (stage_update 1 101 ?st)"
    by (simp add: check_disabled_service_overage_def s ov example_env_def)
  finally have c: "services (process_client_traffic example_env exhausted_service ?c ?st) = []"
    by (simp add: delete_service_for_overage_effect delete_aborts_def example_env_def
        stage_update_def example_store_def s)
  have "process_client_traffic ?e exhausted_service ?d ?st =
      check_disabled_service_overage ?e exhausted_service 120
        (to_gb (used_traffic_bytes ?d)) (to_gb (total_traffic_bytes ?d))
        (stage_update 1 (to_gb (used_traffic_bytes ?d)) ?st)"
    using traffic_path_overage [of exhausted_service ?d ?e ?st] s
    by (simp add: td pd)
  also have "\<dots> = delete_service_for_overage ?e exhausted_service
      (stage_update 1 (to_gb (used_traffic_bytes ?d)) ?st)"
    by (simp add: check_disabled_service_overage_def s example_env_def)
  finally have d: "services (process_client_traffic ?e exhausted_service ?d ?st) = []"
    "panel_calls (process_client_traffic ?e exhausted_service ?d ?st) = []"
    by (simp_all add: delete_service_for_overage_effect delete_aborts_def panel_ready_def
        login_ok_def example_env_def stage_update_def example_store_def s)
  from pc(2) c d show ?thesis
    by (simp add: tc uc GB_def)
qed

text \<open>
  C3, amended. The overage check of a disabled service with an anchor (\<open>exhausted_at\<close> on
  the traffic path, \<open>expired_at\<close> on the expiry path) does nothing when the anchor is more
  than 24 hours old or absent. When the anchor is less than 24 hours old, the service is
  deleted if and only if the usage is at least 110 percent or the overage is at least 1 GB.
  The overage is computed in floating point from the used and the total GB as the caller
  rounded them to four decimals; it is not below zero, and for figures of up to \<open>2 ^ 20\<close> GB
  it is within \<open>2 ^ - 30\<close> GB of their exact difference cut off at zero. The deletion is
  immediate. Unless a call of the panel raises, it removes the rows of the service and sends
  the notice to the owner found in the store, and it calls \<^verbatim>\<open>delete_client\<close> on the panel when the panel is
  configured and \<^verbatim>\<open>login\<close> succeeds. A disabled volume service at 100 percent or more
  is checked on the traffic path with the figures of the evaluation; a disabled plan service
  past its expiry, with an anchor, is checked by the expiry check with the total and the
  used bytes it reads itself, when that total is positive.
\<close>

theorem overage_rule:
  "(exhausted_at s = None \<longrightarrow> check_disabled_service_overage e s p u t st = st) \<and>
   (expired_at s = None \<longrightarrow> check_expired_service_overage e s p u t st = st) \<and>
   (\<forall>a. exhausted_at s = Some a \<and> now e - a > 24 * 3600 \<longrightarrow>
      check_disabled_service_overage e s p u t st = st) \<and>
   (\<forall>a. expired_at s = Some a \<and> now e - a > 24 * 3600 \<longrightarrow>
      check_expired_service_overage e s p u t st = st) \<and>
   (\<forall>a. exhausted_at s = Some a \<and> now e - a < 24 * 3600 \<longrightarrow>
      check_disabled_service_overage e s p u t st =
        (if p \<ge> 110 \<or> overage_gb u t \<ge> 1
         then delete_service_for_overage e s st else st)) \<and>
   (\<forall>a. expired_at s = Some a \<and> now e - a < 24 * 3600 \<longrightarrow>
      check_expired_service_overage e s p u t st =
        (if p \<ge> 110 \<or> overage_gb u t \<ge> 1
         then delete_service_for_overage e s st else st)) \<and>
   0 \<le> overage_gb u t \<and>
   (u \<le> 2 ^ 20 \<and> t \<le> 2 ^ 20 \<longrightarrow>
      \<bar>overage_gb u t - max 0 (max 0 u - max 0 t)\<bar> \<le> 1 / 2 ^ 30) \<and>
   (\<not> delete_aborts e s \<longrightarrow>
      service_id s \<notin> row_ids (delete_service_for_overage e s st) \<and>
      services (delete_service_for_overage e s st) =
        filter (\<lambda>r. service_id r \<noteq> service_id s) (services st) \<and>
      panel_calls (delete_service_for_overage e s st) =
        panel_calls st @
        (if panel_ready e s then [Delete_client (panel_id s) (inbound_id s) (client_uuid s)]
         else []) \<and>
      bot_sent (delete_service_for_overage e s st) =
        bot_sent st @
        (case users st (user_id s) of None \<Rightarrow> []
         | Some chat \<Rightarrow> [(chat, Deleted_for_overage (service_id s))])) \<and>
   (product_id s = None \<and> status s = ''disabled'' \<and> 0 < total_traffic_bytes c \<and>
    100 \<le> usage_percentage c \<longrightarrow>
      process_client_traffic e s c st =
        check_disabled_service_overage e s (usage_percentage c)
          (to_gb (used_traffic_bytes c)) (to_gb (total_traffic_bytes c))
          (stage_update (service_id s) (to_gb (used_traffic_bytes c)) st)) \<and>
   (\<forall>pid x total_b used_b.
      product_id s = Some pid \<and> pid \<noteq> 0 \<and> expires_at s = Some x \<and> x \<le> now e \<and>
      status s = ''disabled'' \<and> expired_at s \<noteq> None \<and>
      expiry_total c = Some total_b \<and> 0 < total_b \<and>
      get_or_0 (used_traffic c) = Some used_b \<longrightarrow>
      check_plan_expiration e s c st =
        check_expired_service_overage e s (of_int used_b / of_int total_b * 100)
          (to_gb (of_int used_b)) (to_gb (of_int total_b)) st)"
proof -
  have 1: "exhausted_at s = None \<longrightarrow> check_disabled_service_overage e s p u t st = st"
    and 2: "expired_at s = None \<longrightarrow> check_expired_service_overage e s p u t st = st"
    and 3: "\<forall>a. exhausted_at s = Some a \<and> now e - a > 24 * 3600 \<longrightarrow>
      check_disabled_service_overage e s p u t st = st"
    and 4: "\<forall>a. expired_at s = Some a \<and> now e - a > 24 * 3600 \<longrightarrow>
      check_expired_service_overage e s p u t st = st"
    and 5: "\<forall>a. exhausted_at s = Some a \<and> now e - a < 24 * 3600 \<longrightarrow>
      check_disabled_service_overage e s p u t st =
        (if p \<ge> 110 \<or> overage_gb u t \<ge> 1
         then delete_service_for_overage e s st else st)"
    and 6: "\<forall>a. expired_at s = Some a \<and> now e - a < 24 * 3600 \<longrightarrow>
      check_expired_service_overage e s p u t st =
        (if p \<ge> 110 \<or> overage_gb u t \<ge> 1
         then delete_service_for_overage e s st else st)"
    by (simp_all add: check_disabled_service_overage_def check_expired_service_overage_def)
  have 7: "u \<le> 2 ^ 20 \<and> t \<le> 2 ^ 20 \<longrightarrow>
      \<bar>overage_gb u t - max 0 (max 0 u - max 0 t)\<bar> \<le> 1 / 2 ^ 30"
    using overage_gb_error [of u t] by simp
  have 8: "\<forall>pid x total_b used_b.
      product_id s = Some pid \<and> pid \<noteq> 0 \<and> expires_at s = Some x \<and> x \<le> now e \<and>
      status s = ''disabled'' \<and> expired_at s \<noteq> None \<and>
      expiry_total c = Some total_b \<and> 0 < total_b \<and>
      get_or_0 (used_traffic c) = Some used_b \<longrightarrow>
      check_plan_expiration e s c st =
        check_expired_service_overage e s (of_int used_b / of_int total_b * 100)
          (to_gb (of_int used_b)) (to_gb (of_int total_b)) st"
    by (intro allI impI) (elim conjE, rule expiry_path_overage)
  have 9: "0 \<le> overage_gb u t"
    by (rule overage_gb_nonneg)
  have 10: "\<not> delete_aborts e s \<longrightarrow>
      service_id s \<notin> row_ids (delete_service_for_overage e s st) \<and>
      services (delete_service_for_overage e s st) =
        filter (\<lambda>r. service_id r \<noteq> service_id s) (services st) \<and>
      panel_calls (delete_service_for_overage e s st) =
        panel_calls st @
        (if panel_ready e s then [Delete_client (panel_id s) (inbound_id s) (client_uuid s)]
         else []) \<and>
      bot_sent (delete_service_for_overage e s st) =
        bot_sent st @
        (case users st (user_id s) of None \<Rightarrow> []
         | Some chat \<Rightarrow> [(chat, Deleted_for_overage (service_id s))])"
    by (simp add: delete_service_for_overage_effect)
  have 11: "product_id s = None \<and> status s = ''disabled'' \<and> 0 < total_traffic_bytes c \<and>
    100 \<le> usage_percentage c \<longrightarrow>
      process_client_traffic e s c st =
        check_disabled_service_overage e s (usage_percentage c)
          (to_gb (used_traffic_bytes c)) (to_gb (total_traffic_bytes c))
          (stage_update (service_id s) (to_gb (used_traffic_bytes c)) st)"
    by (simp add: traffic_path_overage)
  show ?thesis
    by (intro conjI; fact)
qed

text \<open>
  The amended rule on four services. At 120 percent, one hour into the grace period, the
  service is deleted; with 16.4 GiB used of 15.4 GiB, 1 GiB over in bytes and below 110
  percent, the overage in floating point stays below 1 GB and the service is kept; a lapsed
  plan at 120 percent is deleted by the expiry check; and when \<^verbatim>\<open>login\<close> raises the
  hypothesis of the deletion's effect does not hold.
\<close>

theorem overage_rule_witness:
  "exhausted_at exhausted_service = Some (1000000 - 3600) \<and>
   now example_env - (1000000 - 3600) < 24 * 3600 \<and>
   \<not> delete_aborts example_env exhausted_service \<and>
   delete_aborts (example_env\<lparr>login := (\<lambda>p. Raises)\<rparr>) exhausted_service \<and>
   panel_ready example_env exhausted_service \<and>
   check_disabled_service_overage example_env exhausted_service 120 12 10
     (example_store [exhausted_service]) =
   delete_service_for_overage example_env exhausted_service (example_store [exhausted_service]) \<and>
   services (delete_service_for_overage example_env exhausted_service
     (example_store [exhausted_service])) = [] \<and>
   panel_calls (delete_service_for_overage example_env exhausted_service
     (example_store [exhausted_service])) = [Delete_client 2 3 ''u1''] \<and>
   bot_sent (delete_service_for_overage example_env exhausted_service
     (example_store [exhausted_service])) = [(700, Deleted_for_overage 1)] \<and>
   overage_gb (to_gb 17609365914) (to_gb 16535624090) < 1 \<and>
   services (process_client_traffic example_env exhausted_service
     (example_client 16535624090 17609365914) (example_store [exhausted_service])) =
     [exhausted_service] \<and>
   services (check_plan_expiration example_env lapsed_plan
     (example_client (10 * 1073741824) (12 * 1073741824)) (example_store [lapsed_plan])) = []"
proof -
  let ?st = "example_store [exhausted_service]"
  let ?c = "example_client 16535624090 17609365914"
  let ?d = "example_client 10737418240 12884901888"
  have s: "product_id exhausted_service = None" "status exhausted_service = ''disabled''"
    "service_id exhausted_service = 1" "exhausted_at exhausted_service = Some 996400"
    by (simp_all add: exhausted_service_def example_service_def)
  have ab: "\<not> delete_aborts example_env exhausted_service"
    "delete_aborts (example_env\<lparr>login := (\<lambda>p. Raises)\<rparr>) exhausted_service"
    "panel_ready example_env exhausted_service"
    "\<not> delete_aborts example_env lapsed_plan"
    by (simp_all add: delete_aborts_def panel_ready_def login_ok_def example_env_def)
  have tc: "total_traffic_bytes ?c = 16535624090" and uc: "used_traffic_bytes ?c = 17609365914"
    by (simp_all add: total_traffic_bytes_def used_traffic_bytes_def example_client_def
        get_or_0_def float_or_0_def)
  have pc: "100 \<le> usage_percentage ?c" "\<not> 110 \<le> usage_percentage ?c"
    by (simp_all add: usage_percentage_def tc uc)
  have ov: "overage_gb (to_gb 17609365914) (to_gb 16535624090) < 1"
    unfolding to_gb_164 to_gb_154 overage_gb_164_154 by simp
  note a = overage_rule [of exhausted_service example_env 120 12 10 ?st ?c]
  note b = overage_rule [of exhausted_service example_env "usage_percentage ?c"
      "to_gb 17609365914" "to_gb 16535624090" "stage_update 1 (to_gb 17609365914) ?st" ?c]
  note c = overage_rule [of exhausted_service example_env 120 12 10 ?st ?c]
  note d = overage_rule [of lapsed_plan example_env 120 "to_gb 12884901888" "to_gb 10737418240"
      "example_store [lapsed_plan]" ?d]
  from a have a1: "check_disabled_service_overage example_env exhausted_service 120 12 10 ?st =
      delete_service_for_overage example_env exhausted_service ?st"
    by (simp add: s example_env_def)
  from a ab have a2: "services (delete_service_for_overage example_env exhausted_service ?st) = []"
    "panel_calls (delete_service_for_overage example_env exhausted_service ?st) =
       [Delete_client 2 3 ''u1'']"
    "bot_sent (delete_service_for_overage example_env exhausted_service ?st) =
       [(700, Deleted_for_overage 1)]"
    by (simp_all add: example_store_def exhausted_service_def example_service_def)
  from c s tc pc have "process_client_traffic example_env exhausted_service ?c ?st =
      check_disabled_service_overage example_env exhausted_service (usage_percentage ?c)
        (to_gb 17609365914) (to_gb 16535624090) (stage_update 1 (to_gb 17609365914) ?st)"
    by (simp add: uc)
  also from b pc ov have "\<dots> = stage_update 1 (to_gb 17609365914) ?st"
    by (simp add: s example_env_def)
  finally have b1: "services (process_client_traffic example_env exhausted_service ?c ?st) =
      [exhausted_service]"
    by (simp add: stage_update_def example_store_def)
  have x: "expiry_total ?d = Some 10737418240" "get_or_0 (used_traffic ?d) = Some 12884901888"
    by (simp_all add: expiry_total_def py_or_def get_or_0_def example_client_def)
  from d x have "check_plan_expiration example_env lapsed_plan ?d (example_store [lapsed_plan]) =
      check_expired_service_overage example_env lapsed_plan 120
        (to_gb 12884901888) (to_gb 10737418240) (example_store [lapsed_plan])"
    by (simp add: lapsed_plan_def example_service_def example_env_def)
  also from d have "\<dots> = delete_service_for_overage example_env lapsed_plan
      (example_store [lapsed_plan])"
    by (simp add: lapsed_plan_def example_service_def example_env_def)
  finally have d1: "services (check_plan_expiration example_env lapsed_plan ?d
      (example_store [lapsed_plan])) = []"
    using d ab(4) by (simp add: example_store_def lapsed_plan_def example_service_def)
  from s ab a1 a2 ov b1 d1 show ?thesis
    by (simp add: example_env_def)
qed

subsection \<open>The update buffer\<close>

lemma buffer_frame [simp]:
  "pending_updates (update_row i f st) = pending_updates st"
  "pending_updates (delete_service i st) = pending_updates st"
  "pending_updates (panel_call pc st) = pending_updates st"
  "pending_updates (bot_send_message chat m st) = pending_updates st"
  "pending_updates (send_message_safe chat m st) = pending_updates st"
  "pending_updates (stage_update i g st) = pending_updates st @ [(i, g)]"
  "bulk_writes (update_row i f st) = bulk_writes st"
  "bulk_writes (delete_service i st) = bulk_writes st"
  "bulk_writes (panel_call pc st) = bulk_writes st"
  "bulk_writes (bot_send_message chat m st) = bulk_writes st"
  "bulk_writes (send_message_safe chat m st) = bulk_writes st"
  "bulk_writes (stage_update i g st) = bulk_writes st"
  by (simp_all add: update_row_def delete_service_def panel_call_def bot_send_message_def
      send_message_safe_def stage_update_def)

lemma buffer_sends [simp]:
  "pending_updates (send_70_percent_warning s st) = pending_updates st"
  "pending_updates (send_exhaustion_notification s st) = pending_updates st"
  "pending_updates (send_three_days_expiration_warning s d st) = pending_updates st"
  "pending_updates (send_plan_expiration_notification s st) = pending_updates st"
  "bulk_writes (send_70_percent_warning s st) = bulk_writes st"
  "bulk_writes (send_exhaustion_notification s st) = bulk_writes st"
  "bulk_writes (send_three_days_expiration_warning s d st) = bulk_writes st"
  "bulk_writes (send_plan_expiration_notification s st) = bulk_writes st"
  by (simp_all add: send_70_percent_warning_def send_exhaustion_notification_def
      send_three_days_expiration_warning_def send_plan_expiration_notification_def
      row_update_defs get_user_by_id_def split: option.splits)

lemma buffer_handle [simp]:
  "pending_updates (handle_traffic_exhausted e s st) = pending_updates st"
  "pending_updates (handle_plan_expiration e s st) = pending_updates st"
  "pending_updates (delete_service_for_overage e s st) = pending_updates st"
  "pending_updates (delete_exhausted_service e s st) = pending_updates st"
  "pending_updates (delete_expired_plan_service e s st) = pending_updates st"
  "bulk_writes (handle_traffic_exhausted e s st) = bulk_writes st"
  "bulk_writes (handle_plan_expiration e s st) = bulk_writes st"
  "bulk_writes (delete_service_for_overage e s st) = bulk_writes st"
  "bulk_writes (delete_exhausted_service e s st) = bulk_writes st"
  "bulk_writes (delete_expired_plan_service e s st) = bulk_writes st"
  by (simp_all add: handle_traffic_exhausted_def handle_plan_expiration_def Let_def
      row_update_defs delete_service_for_overage_eq delete_exhausted_service_eq
      delete_expired_plan_service_eq notify_deleted_def snd_delete_from_panel
      get_user_by_id_def split: option.splits)

lemma buffer_overage [simp]:
  "pending_updates (check_disabled_service_overage e s p u t st) = pending_updates st"
  "pending_updates (check_expired_service_overage e s p u t st) = pending_updates st"
  "bulk_writes (check_disabled_service_overage e s p u t st) = bulk_writes st"
  "bulk_writes (check_expired_service_overage e s p u t st) = bulk_writes st"
  by (simp_all add: check_disabled_service_overage_def check_expired_service_overage_def
      split: option.splits)

lemma buffer_check_plan_expiration [simp]:
  "pending_updates (check_plan_expiration e s c st) = pending_updates st"
  "bulk_writes (check_plan_expiration e s c st) = bulk_writes st"
  by (simp_all add: check_plan_expiration_def Let_def row_update_defs split: option.splits)

lemma buffer_process_client_traffic:
  "pending_updates (process_client_traffic e s c st) =
     pending_updates st @ [(service_id s, to_gb (used_traffic_bytes c))]"
  "bulk_writes (process_client_traffic e s c st) = bulk_writes st"
  by (simp_all add: process_client_traffic_def Let_def row_update_defs)


lemma counters_kept_refl [simp]: "counters_kept st st"
  by (auto simp: counters_kept_def)

lemma counters_kept_trans:
  "counters_kept st st' \<Longrightarrow> counters_kept st' st'' \<Longrightarrow> counters_kept st st''"
  unfolding counters_kept_def by (metis (no_types, lifting))

lemma counters_kept_frame [simp]:
  "counters_kept st (panel_call pc st') = counters_kept st st'"
  "counters_kept st (bot_send_message chat m st') = counters_kept st st'"
  "counters_kept st (stage_update i g st') = counters_kept st st'"
  "counters_kept st (send_message_safe chat m st') = counters_kept st st'"
  by (simp_all add: counters_kept_def panel_call_def bot_send_message_def stage_update_def
      send_message_safe_def)

lemma counters_kept_update_row:
  assumes "counters_kept st st'"
    and "\<And>r. service_id (f r) = service_id r"
    and "\<And>r. used_gb (f r) = used_gb r"
  shows "counters_kept st (update_row i f st')"
proof (unfold counters_kept_def, intro ballI)
  fix r' assume "r' \<in> set (services (update_row i f st'))"
  then obtain q where q: "q \<in> set (services st')"
    and r': "r' = (if service_id q = i then f q else q)"
    by (auto simp: update_row_def)
  from assms(1) q obtain r where r: "r \<in> set (services st)" "service_id r = service_id q"
    "used_gb q = used_gb r"
    unfolding counters_kept_def by blast
  have "service_id r = service_id r' \<and> used_gb r' = used_gb r"
    using r r' assms(2) [of q] assms(3) [of q] by auto
  with r(1) show "\<exists>r\<in>set (services st). service_id r = service_id r' \<and> used_gb r' = used_gb r"
    by blast
qed

lemma counters_kept_ops:
  assumes "counters_kept st st'"
  shows "counters_kept st (update_service_status i v st')"
    and "counters_kept st (update_service_exhaustion_time e i st')"
    and "counters_kept st (update_service_expiration_time e i st')"
    and "counters_kept st (update_service_70_percent_warning i w st')"
    and "counters_kept st (update_service_100_percent_warning i w st')"
    and "counters_kept st (update_service_warned_one_week i w st')"
    and "counters_kept st (update_service_expired_warning i w st')"
    and "counters_kept st (delete_service i st')"
  using assms
  by (simp_all add: row_update_defs counters_kept_update_row)
     (auto simp: counters_kept_def delete_service_def)

lemma counters_kept_sends:
  assumes "counters_kept st st'"
  shows "counters_kept st (send_70_percent_warning s st')"
    and "counters_kept st (send_exhaustion_notification s st')"
    and "counters_kept st (send_three_days_expiration_warning s d st')"
    and "counters_kept st (send_plan_expiration_notification s st')"
  using assms
  by (simp_all add: send_70_percent_warning_def send_exhaustion_notification_def
      send_three_days_expiration_warning_def send_plan_expiration_notification_def
      get_user_by_id_def counters_kept_ops split: option.splits)

lemma counters_kept_handle:
  assumes "counters_kept st st'"
  shows "counters_kept st (handle_traffic_exhausted e s st')"
    and "counters_kept st (handle_plan_expiration e s st')"
    and "counters_kept st (delete_service_for_overage e s st')"
  using assms
  by (simp_all add: handle_traffic_exhausted_def handle_plan_expiration_def Let_def
      delete_service_for_overage_eq notify_deleted_def snd_delete_from_panel
      get_user_by_id_def counters_kept_ops counters_kept_sends split: option.splits)

lemma counters_kept_overage:
  assumes "counters_kept st st'"
  shows "counters_kept st (check_disabled_service_overage e s p u t st')"
    and "counters_kept st (check_expired_service_overage e s p u t st')"
  using assms
  by (simp_all add: check_disabled_service_overage_def check_expired_service_overage_def
      counters_kept_handle split: option.splits)

lemma counters_kept_check_plan_expiration:
  assumes "counters_kept st st'"
  shows "counters_kept st (check_plan_expiration e s c st')"
  using assms
  by (simp add: check_plan_expiration_def Let_def counters_kept_ops counters_kept_sends
      counters_kept_handle counters_kept_overage split: option.splits)

lemma counters_kept_process_client_traffic:
  assumes "counters_kept st st'"
  shows "counters_kept st (process_client_traffic e s c st')"
  using assms
  by (simp add: process_client_traffic_def Let_def counters_kept_ops counters_kept_sends
      counters_kept_handle counters_kept_overage counters_kept_check_plan_expiration)

text \<open>What a visit of one service, of one panel and of all panels leaves of the buffer.\<close>

lemma foldl_visits_buffer:
  assumes vis: "\<And>s st. f s st = st \<or> (\<exists>c. f s st = process_client_traffic e s c st)"
  shows "bulk_writes (foldl (\<lambda>acc s. f s acc) st xs) = bulk_writes st \<and>
         counters_kept st (foldl (\<lambda>acc s. f s acc) st xs) \<and>
         length (pending_updates (foldl (\<lambda>acc s. f s acc) st xs)) \<le>
           length (pending_updates st) + length xs"
proof (induction xs arbitrary: st)
  case Nil
  then show ?case by simp
next
  case (Cons x xs)
  have one: "bulk_writes (f x st) = bulk_writes st \<and> counters_kept st (f x st) \<and>
      length (pending_updates (f x st)) \<le> length (pending_updates st) + 1"
    using vis [of x st] counters_kept_process_client_traffic [of st st e x]
    by (auto simp: buffer_process_client_traffic)
  from Cons.IH [of "f x st"] one show ?case
    by (auto intro: counters_kept_trans)
qed

lemma check_panel_services_parallel_buffer:
  "bulk_writes (check_panel_services_parallel e p xs st) = bulk_writes st \<and>
   counters_kept st (check_panel_services_parallel e p xs st) \<and>
   length (pending_updates (check_panel_services_parallel e p xs st)) \<le>
     length (pending_updates st) + length xs"
  using foldl_visits_buffer [of "check_service_traffic e" e st xs,
      OF visit_check_service_traffic]
    foldl_visits_buffer [of "\<lambda>s. check_service_traffic_optimized e s (batch_clients e p)" e st xs,
      OF visit_check_service_traffic_optimized]
  by (simp add: check_panel_services_parallel_def Let_def)

lemma check_panels_buffer:
  "bulk_writes (check_panels e groups st) = bulk_writes st \<and>
   counters_kept st (check_panels e groups st) \<and>
   length (pending_updates (check_panels e groups st)) \<le>
     length (pending_updates st) + length (concat (map snd groups))"
proof (induction groups arbitrary: st)
  case Nil
  then show ?case by (simp add: check_panels_def)
next
  case (Cons g groups)
  obtain p xs where g: "g = (p, xs)" by (cases g)
  have unfold: "check_panels e (g # groups) st =
      check_panels e groups (check_panel_services_parallel e p xs st)"
    by (simp add: check_panels_def g)
  from Cons.IH [of "check_panel_services_parallel e p xs st"]
    check_panel_services_parallel_buffer [of e p xs st]
  show ?case
    unfolding unfold by (auto simp: g intro: counters_kept_trans)
qed

lemma flush_updates_effect:
  "pending_updates (flush_updates e st) = []"
  "bulk_writes (flush_updates e st) =
     bulk_writes st @ (if pending_updates st = [] then [] else [pending_updates st])"
  "\<not> bulk_ok e \<Longrightarrow> services (flush_updates e st) = services st"
  "bulk_ok e \<Longrightarrow> services (flush_updates e st) =
     services (bulk_update_client_status (pending_updates st) st)"
proof -
  have frame: "pending_updates (bulk_update_client_status us st') = pending_updates st' \<and>
      bulk_writes (bulk_update_client_status us st') = bulk_writes st'" for us st'
    by (induction us arbitrary: st') (auto simp: bulk_update_client_status_def)
  have rows: "services st1 = services st2 \<Longrightarrow>
      services (bulk_update_client_status us st1) = services (bulk_update_client_status us st2)"
    for us st1 st2
  proof (induction us arbitrary: st1 st2)
    case Nil
    then show ?case by (simp add: bulk_update_client_status_def)
  next
    case (Cons u us)
    obtain i g where u: "u = (i, g)" by (cases u)
    from Cons.prems have "services (update_row i (\<lambda>s. s\<lparr>used_gb := g\<rparr>) st1) =
        services (update_row i (\<lambda>s. s\<lparr>used_gb := g\<rparr>) st2)"
      by (simp add: update_row_def)
    from Cons.IH [OF this] show ?case
      by (simp add: bulk_update_client_status_def u)
  qed
  show "pending_updates (flush_updates e st) = []"
    by (simp add: flush_updates_def Let_def frame)
  show "bulk_writes (flush_updates e st) =
     bulk_writes st @ (if pending_updates st = [] then [] else [pending_updates st])"
    by (simp add: flush_updates_def Let_def frame)
  show "\<not> bulk_ok e \<Longrightarrow> services (flush_updates e st) = services st"
    by (simp add: flush_updates_def Let_def)
  show "bulk_ok e \<Longrightarrow> services (flush_updates e st) =
     services (bulk_update_client_status (pending_updates st) st)"
    using rows [of "st\<lparr>pending_updates := [],
        bulk_writes := bulk_writes st @ [pending_updates st]\<rparr>" st "pending_updates st"]
    by (cases "pending_updates st = []")
       (simp_all add: flush_updates_def Let_def bulk_update_client_status_def)
qed


lemma length_services_by_panel:
  "length (concat (map snd (services_by_panel svcs))) \<le> length svcs"
proof -
  have "length (concat (map snd (services_by_panel svcs))) =
      length (filter (\<lambda>s. panel_id s \<noteq> 0) svcs)"
    using mset_services_by_panel [of svcs] by (metis size_mset)
  then show ?thesis by simp
qed

text \<open>
  C8. An evaluation stages exactly one entry, the id of the service with its usage in GB,
  and writes nothing. A flush leaves the buffer empty and makes one bulk write of everything
  that was staged (none when nothing was); when the write fails no row changes, and the
  entries are gone. A reconciliation pass clears the buffer, lets the evaluations of all
  panels stage at most one entry for each active service, and flushes once at the end: it
  ends with an empty buffer after at most one bulk write, and when that write fails every
  row that is left has the usage counter it had before the pass.
\<close>

theorem update_buffer_flushed_once:
  "pending_updates (process_client_traffic e s c st) =
     pending_updates st @ [(service_id s, to_gb (used_traffic_bytes c))] \<and>
   bulk_writes (process_client_traffic e s c st) = bulk_writes st \<and>
   pending_updates (flush_updates e st) = [] \<and>
   bulk_writes (flush_updates e st) =
     bulk_writes st @ (if pending_updates st = [] then [] else [pending_updates st]) \<and>
   (\<not> bulk_ok e \<longrightarrow> services (flush_updates e st) = services st) \<and>
   (bulk_ok e \<longrightarrow> services (flush_updates e st) =
      services (bulk_update_client_status (pending_updates st) st)) \<and>
   pending_updates (check_all_services e st) = [] \<and>
   (get_all_active_services st \<noteq> [] \<longrightarrow>
      check_all_services e st =
        flush_updates e (check_panels e (services_by_panel (get_all_active_services st))
          (st\<lparr>pending_updates := []\<rparr>))) \<and>
   length (pending_updates (check_panels e (services_by_panel (get_all_active_services st))
          (st\<lparr>pending_updates := []\<rparr>))) \<le> length (get_all_active_services st) \<and>
   bulk_writes (check_all_services e st) =
     bulk_writes st @
     (if get_all_active_services st = [] \<or>
         pending_updates (check_panels e (services_by_panel (get_all_active_services st))
           (st\<lparr>pending_updates := []\<rparr>)) = []
      then []
      else [pending_updates (check_panels e (services_by_panel (get_all_active_services st))
           (st\<lparr>pending_updates := []\<rparr>))]) \<and>
   (\<not> bulk_ok e \<longrightarrow> counters_kept st (check_all_services e st))"
proof -
  let ?svcs = "get_all_active_services st"
  let ?st1 = "st\<lparr>pending_updates := []\<rparr>"
  let ?st2 = "check_panels e (services_by_panel ?svcs) ?st1"
  note panels = check_panels_buffer [of e "services_by_panel ?svcs" ?st1]
  have eq: "?svcs \<noteq> [] \<Longrightarrow> check_all_services e st = flush_updates e ?st2"
    and eq0: "?svcs = [] \<Longrightarrow> check_all_services e st = ?st1"
    by (simp_all add: check_all_services_def Let_def)
  have pending: "pending_updates (check_all_services e st) = []"
    using eq eq0 by (cases "?svcs = []") (simp_all add: flush_updates_effect)
  have staged: "length (pending_updates ?st2) \<le> length ?svcs"
    using panels length_services_by_panel [of ?svcs] by simp
  have writes: "bulk_writes (check_all_services e st) =
     bulk_writes st @
     (if ?svcs = [] \<or> pending_updates ?st2 = [] then [] else [pending_updates ?st2])"
    using eq eq0 panels by (cases "?svcs = []") (simp_all add: flush_updates_effect)
  have c1: "counters_kept st ?st1"
    by (simp add: counters_kept_def) blast
  have c2: "counters_kept st ?st2"
    using c1 panels by (blast intro: counters_kept_trans)
  have kept: "counters_kept st (check_all_services e st)" if "\<not> bulk_ok e"
  proof (cases "?svcs = []")
    case True
    with eq0 c1 show ?thesis by simp
  next
    case False
    from that have "services (flush_updates e ?st2) = services ?st2"
      by (rule flush_updates_effect)
    with c2 have "counters_kept st (flush_updates e ?st2)"
      by (simp add: counters_kept_def)
    with False eq show ?thesis by simp
  qed
  from pending eq staged writes kept show ?thesis
    by (simp add: buffer_process_client_traffic flush_updates_effect)
qed

theorem update_buffer_flushed_once_witness:
  "\<not> bulk_ok (example_panel_env (example_client (10 * 1073741824) (15 * 536870912))
       \<lparr>bulk_ok := False\<rparr>) \<and>
   get_all_active_services (example_store [example_service]) = [example_service] \<and>
   pending_updates (check_all_services
     (example_panel_env (example_client (10 * 1073741824) (15 * 536870912))\<lparr>bulk_ok := False\<rparr>)
     (example_store [example_service])) = [] \<and>
   bulk_writes (check_all_services
     (example_panel_env (example_client (10 * 1073741824) (15 * 536870912))\<lparr>bulk_ok := False\<rparr>)
     (example_store [example_service])) = [[(1, 15 / 2)]] \<and>
   map used_gb (services (check_all_services
     (example_panel_env (example_client (10 * 1073741824) (15 * 536870912))\<lparr>bulk_ok := False\<rparr>)
     (example_store [example_service]))) = [0] \<and>
   map used_gb (services (check_all_services
     (example_panel_env (example_client (10 * 1073741824) (15 * 536870912)))
     (example_store [example_service]))) = [15 / 2] \<and>
   counters_kept (example_store [example_service]) (check_all_services
     (example_panel_env (example_client (10 * 1073741824) (15 * 536870912))\<lparr>bulk_ok := False\<rparr>)
     (example_store [example_service]))"
proof -
  let ?c = "example_client (10 * 1073741824) (15 * 536870912)"
  let ?e = "example_panel_env ?c\<lparr>bulk_ok := False\<rparr>"
  let ?st = "example_store [example_service]"
  have fails: "\<not> bulk_ok ?e"
    by simp
  have active: "get_all_active_services ?st = [example_service]"
    by (simp add: get_all_active_services_def example_store_def example_service_def)
  have run: "bulk_writes (check_all_services ?e ?st) = [[(1, 15 / 2)]]"
    "map used_gb (services (check_all_services ?e ?st)) = [0]"
    "map used_gb (services (check_all_services (example_panel_env ?c) ?st)) = [15 / 2]"
    by code_simp+
  note inst = update_buffer_flushed_once [of ?e example_service ?c ?st]
  from inst fails have kept: "counters_kept ?st (check_all_services ?e ?st)"
    by blast
  from inst have pending: "pending_updates (check_all_services ?e ?st) = []"
    by blast
  from fails active run kept pending show ?thesis
    by simp
qed


subsection \<open>The dispatcher\<close>

lemma spaced_snoc:
  "spaced (earlier @ [b]) \<longleftrightarrow>
     spaced earlier \<and>
     (\<forall>a\<in>set earlier. delivered a \<and> recipient a = recipient b \<longrightarrow>
        finished a + min_message_interval \<le> started b)"
  by (induction earlier) auto

text \<open>
  What the worker's bookkeeping guarantees between items: the time recorded for a recipient
  is not before the end of any delivered send to it, nothing recorded lies in the future,
  and the sends so far are spaced.
\<close>

lemma process_queue_item_keeps:
  assumes nonneg: "0 \<le> waited d" "0 \<le> overslept d" "0 \<le> send_duration d"
    and rec: "\<forall>a\<in>set (attempts w). delivered a \<longrightarrow>
        (\<exists>t. last_message_time w (recipient a) = Some t \<and> finished a \<le> t)"
    and past: "\<forall>chat t. last_message_time w chat = Some t \<longrightarrow> t \<le> clock w"
    and sp: "spaced (attempts w)"
  shows "(\<forall>a\<in>set (attempts (process_queue_item d w)). delivered a \<longrightarrow>
        (\<exists>t. last_message_time (process_queue_item d w) (recipient a) = Some t \<and>
             finished a \<le> t)) \<and>
     (\<forall>chat t. last_message_time (process_queue_item d w) chat = Some t \<longrightarrow>
        t \<le> clock (process_queue_item d w)) \<and>
     spaced (attempts (process_queue_item d w))"
proof -
  define chat_id where "chat_id = fst (item d)"
  define now_t where "now_t = clock w + waited d"
  define last_time where
    "last_time = (case last_message_time w chat_id of None \<Rightarrow> 0 | Some t \<Rightarrow> t)"
  define start where "start = (if now_t - last_time < min_message_interval
       then now_t + (min_message_interval - (now_t - last_time)) + overslept d else now_t)"
  define fin where "fin = start + send_duration d"
  define b where "b = \<lparr>recipient = chat_id, text_sent = snd (item d), started = start,
       finished = fin, delivered = send_ok d\<rparr>"
  have eq: "process_queue_item d w =
      w\<lparr>clock := fin,
        last_message_time :=
          (if send_ok d then (last_message_time w)(chat_id \<mapsto> fin) else last_message_time w),
        attempts := attempts w @ [b]\<rparr>"
    by (simp add: process_queue_item_def Let_def chat_id_def now_t_def last_time_def
        start_def fin_def b_def)
  have s1: "now_t \<le> start" and s2: "last_time + min_message_interval \<le> start"
    using nonneg(2) by (auto simp: start_def)
  have s3: "clock w \<le> start" and s4: "start \<le> fin"
    using s1 nonneg(1,3) by (simp_all add: now_t_def fin_def)
  have gap: "finished a + min_message_interval \<le> started b"
    if "a \<in> set (attempts w)" "delivered a" "recipient a = recipient b" for a
  proof -
    from rec that obtain t where t: "last_message_time w chat_id = Some t" "finished a \<le> t"
      by (auto simp: b_def)
    then have "last_time = t"
      by (simp add: last_time_def)
    with s2 t(2) show ?thesis
      by (simp add: b_def)
  qed
  have rec': "\<exists>t. (if send_ok d then (last_message_time w)(chat_id \<mapsto> fin)
                   else last_message_time w) (recipient a) = Some t \<and> finished a \<le> t"
    if "a \<in> set (attempts w @ [b])" "delivered a" for a
  proof (cases "a = b")
    case True
    with that show ?thesis by (simp add: b_def)
  next
    case False
    with that have ain: "a \<in> set (attempts w)" by simp
    with rec that obtain t where t: "last_message_time w (recipient a) = Some t" "finished a \<le> t"
      by blast
    with past have "t \<le> clock w" by blast
    with t s3 s4 show ?thesis
      by (cases "recipient a = chat_id") auto
  qed
  have past': "t \<le> fin"
    if "(if send_ok d then (last_message_time w)(chat_id \<mapsto> fin)
         else last_message_time w) chat = Some t" for chat t
    using that past s3 s4 by (auto split: if_splits) (meson order_trans)+
  from sp gap have sp': "spaced (attempts w @ [b])"
    by (auto simp: spaced_snoc)
  show ?thesis
    unfolding eq using rec' past' sp' by simp
qed

lemma process_message_queue_keeps:
  assumes "\<forall>d\<in>set ds. 0 \<le> waited d \<and> 0 \<le> overslept d \<and> 0 \<le> send_duration d"
    and "\<forall>a\<in>set (attempts w). delivered a \<longrightarrow>
        (\<exists>t. last_message_time w (recipient a) = Some t \<and> finished a \<le> t)"
    and "\<forall>chat t. last_message_time w chat = Some t \<longrightarrow> t \<le> clock w"
    and "spaced (attempts w)"
  shows "spaced (attempts (process_message_queue ds w))"
  using assms
proof (induction ds arbitrary: w)
  case Nil
  then show ?case by (simp add: process_message_queue_def)
next
  case (Cons d ds)
  from Cons.prems(1) have d: "0 \<le> waited d" "0 \<le> overslept d" "0 \<le> send_duration d"
    and rest: "\<forall>d\<in>set ds. 0 \<le> waited d \<and> 0 \<le> overslept d \<and> 0 \<le> send_duration d"
    by simp_all
  note one = process_queue_item_keeps [OF d Cons.prems(2,3,4)]
  have "spaced (attempts (process_message_queue ds (process_queue_item d w)))"
    using one by (intro Cons.IH [OF rest]) blast+
  then show ?case
    by (simp add: process_message_queue_def)
qed

lemma process_message_queue_order:
  "map (\<lambda>a. (recipient a, text_sent a)) (attempts (process_message_queue ds w)) =
   map (\<lambda>a. (recipient a, text_sent a)) (attempts w) @ map item ds"
proof (induction ds arbitrary: w)
  case Nil
  then show ?case by (simp add: process_message_queue_def)
next
  case (Cons d ds)
  have "map (\<lambda>a. (recipient a, text_sent a)) (attempts (process_queue_item d w)) =
      map (\<lambda>a. (recipient a, text_sent a)) (attempts w) @ [item d]"
    by (simp add: process_queue_item_def Let_def)
  with Cons.IH [of "process_queue_item d w"] show ?case
    by (simp add: process_message_queue_def)
qed


lemma spaced_nth:
  assumes "spaced xs" and "i < j" and "j < length xs"
    and "delivered (xs ! i)" and "recipient (xs ! j) = recipient (xs ! i)"
  shows "finished (xs ! i) + min_message_interval \<le> started (xs ! j)"
  using assms
proof (induction xs arbitrary: i j)
  case Nil
  then show ?case by simp
next
  case (Cons a xs)
  show ?case
  proof (cases i)
    case 0
    with Cons.prems obtain j' where j': "j = Suc j'" "j' < length xs"
      by (cases j) auto
    with 0 Cons.prems show ?thesis
      by auto
  next
    case (Suc i')
    with Cons.prems obtain j' where j': "j = Suc j'" "i' < j'" "j' < length xs"
      by (cases j) auto
    with Suc Cons.prems Cons.IH [of i' j'] show ?thesis
      by auto
  qed
qed

text \<open>
  C9, as the claim states it, fails: when a send to a recipient raises, the time of the
  send is not recorded, and the next message for the same recipient goes out at once. Here
  the second send to chat 700 starts a twentieth of a second after the first.
\<close>

theorem dispatcher_spacing_counterexample:
  "map (\<lambda>a. (recipient a, started a, delivered a))
     (attempts (process_message_queue [example_delivery False 1, example_delivery True 2]
        (new_worker 100))) =
   [(700, 100, False), (700, 100 + 1 / 20, True)]"
  by code_simp

text \<open>
  C9, amended. The worker sends the items in the order of the queue, one attempt for each.
  After a send to a recipient that was delivered, every later send to the same recipient
  starts at least the minimum interval of one second after the earlier one finished,
  provided the clock does not run backwards (no wait, no oversleep and no send takes
  negative time). A send that raised does not hold back the next one. Ten messages queued
  at once for one recipient, all delivered, are an instance.
\<close>

theorem dispatcher_spacing_and_order:
  assumes "\<forall>d\<in>set ds. 0 \<le> waited d \<and> 0 \<le> overslept d \<and> 0 \<le> send_duration d"
  shows "map (\<lambda>a. (recipient a, text_sent a)) (attempts (process_message_queue ds (new_worker t0))) =
           map item ds \<and>
         spaced (attempts (process_message_queue ds (new_worker t0))) \<and>
         (\<forall>i j. i < j \<and> j < length ds \<and>
            delivered (attempts (process_message_queue ds (new_worker t0)) ! i) \<and>
            recipient (attempts (process_message_queue ds (new_worker t0)) ! j) =
              recipient (attempts (process_message_queue ds (new_worker t0)) ! i) \<longrightarrow>
            finished (attempts (process_message_queue ds (new_worker t0)) ! i) + 1 \<le>
              started (attempts (process_message_queue ds (new_worker t0)) ! j))"
proof -
  let ?as = "attempts (process_message_queue ds (new_worker t0))"
  have order: "map (\<lambda>a. (recipient a, text_sent a)) ?as = map item ds"
    using process_message_queue_order [of ds "new_worker t0"] by (simp add: new_worker_def)
  then have len: "length ?as = length ds"
    by (metis length_map)
  have sp: "spaced ?as"
    using assms by (intro process_message_queue_keeps) (simp_all add: new_worker_def)
  from spaced_nth [OF sp] len order sp show ?thesis
    by (simp add: min_message_interval_def)
qed

theorem dispatcher_spacing_and_order_witness:
  "list_all (\<lambda>d. 0 \<le> waited d \<and> 0 \<le> overslept d \<and> 0 \<le> send_duration d)
     
     [example_delivery True 0, example_delivery True 1, example_delivery True 2,
      example_delivery True 3, example_delivery True 4, example_delivery True 5,
      example_delivery True 6, example_delivery True 7, example_delivery True 8,
      example_delivery True 9] \<and>
   map (\<lambda>a. (text_sent a, started a, delivered a))
     (attempts (process_message_queue 
     [example_delivery True 0, example_delivery True 1, example_delivery True 2,
      example_delivery True 3, example_delivery True 4, example_delivery True 5,
      example_delivery True 6, example_delivery True 7, example_delivery True 8,
      example_delivery True 9] (new_worker 100))) =
   [(Warning_70_percent 0, 100, True),
    (Warning_70_percent 1, 101 + 1 / 20, True),
    (Warning_70_percent 2, 102 + 2 / 20, True),
    (Warning_70_percent 3, 103 + 3 / 20, True),
    (Warning_70_percent 4, 104 + 4 / 20, True),
    (Warning_70_percent 5, 105 + 5 / 20, True),
    (Warning_70_percent 6, 106 + 6 / 20, True),
    (Warning_70_percent 7, 107 + 7 / 20, True),
    (Warning_70_percent 8, 108 + 8 / 20, True),
    (Warning_70_percent 9, 109 + 9 / 20, True)] \<and>
   spaced (attempts (process_message_queue 
     [example_delivery True 0, example_delivery True 1, example_delivery True 2,
      example_delivery True 3, example_delivery True 4, example_delivery True 5,
      example_delivery True 6, example_delivery True 7, example_delivery True 8,
      example_delivery True 9]
     (new_worker 100)))"
proof -
  let ?ds = "[example_delivery True 0, example_delivery True 1, example_delivery True 2,
      example_delivery True 3, example_delivery True 4, example_delivery True 5,
      example_delivery True 6, example_delivery True 7, example_delivery True 8,
      example_delivery True 9]"
  have ok: "\<forall>d\<in>set ?ds. 0 \<le> waited d \<and> 0 \<le> overslept d \<and> 0 \<le> send_duration d"
    by (simp add: example_delivery_def)
  then have ok': "list_all (\<lambda>d. 0 \<le> waited d \<and> 0 \<le> overslept d \<and> 0 \<le> send_duration d) ?ds"
    by (simp only: list_all_iff)
  have run: "map (\<lambda>a. (text_sent a, started a, delivered a))
     (attempts (process_message_queue ?ds (new_worker 100))) =
   [(Warning_70_percent 0, 100, True),
    (Warning_70_percent 1, 101 + 1 / 20, True),
    (Warning_70_percent 2, 102 + 2 / 20, True),
    (Warning_70_percent 3, 103 + 3 / 20, True),
    (Warning_70_percent 4, 104 + 4 / 20, True),
    (Warning_70_percent 5, 105 + 5 / 20, True),
    (Warning_70_percent 6, 106 + 6 / 20, True),
    (Warning_70_percent 7, 107 + 7 / 20, True),
    (Warning_70_percent 8, 108 + 8 / 20, True),
    (Warning_70_percent 9, 109 + 9 / 20, True)]"
    unfolding process_message_queue_def foldl.simps
    by (simp add: process_queue_item_def Let_def example_delivery_def new_worker_def
        min_message_interval_def)
  from dispatcher_spacing_and_order [OF ok, of 100] have
    "spaced (attempts (process_message_queue ?ds (new_worker 100)))"
    by blast
  with ok' run show ?thesis
    by blast
qed

end
